theory Spec2Isabelle
  imports Complex_Main "HOL-Library.AList" "HOL-Library.List_Lexorder" "HOL-Library.Char_ord"
    "HOL-Library.Word"
begin

section \<open>Data model\<close>

text \<open>
  The grouping code of the repository lives in two places: the worker module
  \<^verbatim>\<open>worker/sotrim_algo.py\<close> (module-level configuration, compatibility matrix, scorer,
  greedy builder, run driver \<^verbatim>\<open>make_groups\<close>) and the service class
  \<^verbatim>\<open>GroupingEngine\<close> in \<^verbatim>\<open>api/app/services/grouping_engine.py\<close>, which has its own
  matrix builder and driver and calls the worker's builder and scorer.

  Numbers are Python floats in the source; they are modelled as \<^typ>\<open>real\<close>, and a missing
  or unparseable number (NaN after \<^verbatim>\<open>pd.to_numeric(..., errors='coerce')\<close>) as
  \<^term>\<open>None :: real option\<close>. Rounding of floating-point arithmetic is outside the model.
\<close>

subsection \<open>Age rules\<close>

text \<open>
  The \<^verbatim>\<open>age_rules\<close> dictionary. Keys read with a default (\<^verbatim>\<open>allow_cross_band\<close>,
  \<^verbatim>\<open>boundary_slack_years\<close>, \<^verbatim>\<open>group_constraints\<close>) carry the default; optional keys
  (\<^verbatim>\<open>max_spread\<close> of a band, the legacy top-level \<^verbatim>\<open>max_age_difference\<close>) are options.
  A band always has \<^verbatim>\<open>min\<close> and \<^verbatim>\<open>max\<close>, as \<^verbatim>\<open>validate_config\<close> asserts.
\<close>

record band =
  band_name :: string
  band_min :: real
  band_max :: real
  max_spread :: "real option"

record group_constraints =
  gc_max_age_difference :: "real option"
  gc_max_age_std :: "real option"

record age_rules =
  age_field :: string
  bands :: "band list"
  max_age_difference :: "real option"
  allow_cross_band :: bool
  boundary_slack_years :: real
  age_group_constraints :: group_constraints

section \<open>Age compatibility\<close>

text \<open>
  \<^verbatim>\<open>for i, band in enumerate(bands): if band["min"] <= age <= band["max"]: ...append(i)\<close>
\<close>

definition in_band :: "band \<Rightarrow> real \<Rightarrow> bool" where
  "in_band b age \<longleftrightarrow> band_min b \<le> age \<and> age \<le> band_max b"

definition bands_of :: "band list \<Rightarrow> real \<Rightarrow> nat list" where
  "bands_of bs age = filter (\<lambda>i. in_band (bs ! i) age) [0..<length bs]"

text \<open>
  \<^verbatim>\<open>min_max_spread = float('inf')\<close>, lowered by every common band that defines
  \<^verbatim>\<open>max_spread\<close>; \<^term>\<open>None\<close> stands for infinity.
\<close>

fun min_max_spread :: "band list \<Rightarrow> nat list \<Rightarrow> real option \<Rightarrow> real option" where
  "min_max_spread bs [] acc = acc"
| "min_max_spread bs (i # is) acc =
     (case max_spread (bs ! i) of
        None \<Rightarrow> min_max_spread bs is acc
      | Some s \<Rightarrow> min_max_spread bs is (case acc of None \<Rightarrow> Some s | Some m \<Rightarrow> Some (min m s)))"

text \<open>\<^verbatim>\<open>max_max_spread = 0\<close>, raised by every band of either age that defines \<^verbatim>\<open>max_spread\<close>.\<close>

fun max_max_spread :: "band list \<Rightarrow> nat list \<Rightarrow> real \<Rightarrow> real" where
  "max_max_spread bs [] acc = acc"
| "max_max_spread bs (i # is) acc =
     (case max_spread (bs ! i) of
        None \<Rightarrow> max_max_spread bs is acc
      | Some s \<Rightarrow> max_max_spread bs is (max acc s))"

text \<open>
  \<^verbatim>\<open>check_age_compatibility(age1, age2, age_rules)\<close> of the worker module. The result
  is \<^term>\<open>False\<close> when the rules are absent or an age is NaN.
\<close>

definition check_age_compatibility :: "real option \<Rightarrow> real option \<Rightarrow> age_rules option \<Rightarrow> bool" where
  "check_age_compatibility age1 age2 rules =
     (case rules of None \<Rightarrow> False | Some ar \<Rightarrow>
      (case age1 of None \<Rightarrow> False | Some a1 \<Rightarrow>
      (case age2 of None \<Rightarrow> False | Some a2 \<Rightarrow>
      (case max_age_difference ar of
         Some max_diff \<Rightarrow> \<bar>a1 - a2\<bar> \<le> max_diff
       | None \<Rightarrow>
          (let bs = bands ar;
               bands1 = bands_of bs a1;
               bands2 = bands_of bs a2
           in if bands1 = [] \<or> bands2 = [] then False
              else
                (let common_bands = filter (\<lambda>i. i \<in> set bands2) bands1
                 in if common_bands \<noteq> [] then
                      (case min_max_spread bs common_bands None of
                         None \<Rightarrow> True
                       | Some m \<Rightarrow> \<bar>a1 - a2\<bar> \<le> m)
                    else if \<not> allow_cross_band ar then False
                    else \<bar>a1 - a2\<bar> \<le> max_max_spread bs (bands1 @ bands2) 0))))))"

text \<open>
  \<^verbatim>\<open>GroupingEngine._check_age_compatibility(age1, age2)\<close>: the service's own check, called
  only when both ages are present. It accepts as soon as one shared band admits the pair and
  otherwise falls through to the cross-band rule, which uses \<^verbatim>\<open>boundary_slack_years\<close>.
\<close>

definition engine_check_age_compatibility :: "age_rules option \<Rightarrow> real \<Rightarrow> real \<Rightarrow> bool" where
  "engine_check_age_compatibility rules age1 age2 =
     (case rules of None \<Rightarrow> True | Some ar \<Rightarrow>
      (let bs = bands ar;
           bands1 = bands_of bs age1;
           bands2 = bands_of bs age2;
           shared = filter (\<lambda>i. i \<in> set bands2) bands1
       in if list_ex (\<lambda>i. case max_spread (bs ! i) of
                              None \<Rightarrow> True
                            | Some s \<Rightarrow> \<bar>age1 - age2\<bar> \<le> s) shared then True
          else if allow_cross_band ar then \<bar>age1 - age2\<bar> \<le> boundary_slack_years ar
          else False))"

subsection \<open>The rule in the specification's words\<close>

text \<open>
  The \<^verbatim>\<open>max_spread\<close> values that the bands with the given indices define, and the bands
  that contain both ages.
\<close>

definition spreads :: "band list \<Rightarrow> nat list \<Rightarrow> real list" where
  "spreads bs is = List.map_filter (\<lambda>i. max_spread (bs ! i)) is"

definition shared_bands :: "band list \<Rightarrow> real \<Rightarrow> real \<Rightarrow> nat list" where
  "shared_bands bs a b = filter (\<lambda>i. in_band (bs ! i) a \<and> in_band (bs ! i) b) [0..<length bs]"


text \<open>Bands and rules used as concrete inputs.\<close>

definition twenties :: band where
  "twenties = \<lparr>band_name = ''20s'', band_min = 20, band_max = 29, max_spread = Some 8\<rparr>"

definition late_twenties :: band where
  "late_twenties = \<lparr>band_name = ''25-35'', band_min = 25, band_max = 35, max_spread = Some 3\<rparr>"

definition no_group_constraints :: group_constraints where
  "no_group_constraints = \<lparr>gc_max_age_difference = None, gc_max_age_std = None\<rparr>"


definition overlapping_rules :: age_rules where
  "overlapping_rules = \<lparr>age_field = ''age'', bands = [twenties, late_twenties],
     max_age_difference = None, allow_cross_band = False, boundary_slack_years = 0,
     age_group_constraints = no_group_constraints\<rparr>"

subsection \<open>Properties of the age check\<close>

lemma spreads_Nil [simp]: "spreads bs [] = []"
  by (simp add: spreads_def List.map_filter_simps)

lemma spreads_Cons:
  "spreads bs (i # is) = (case max_spread (bs ! i) of None \<Rightarrow> spreads bs is | Some s \<Rightarrow> s # spreads bs is)"
  by (simp add: spreads_def List.map_filter_simps split: option.splits)

lemma common_is_shared:
  "filter (\<lambda>i. i \<in> set (bands_of bs b)) (bands_of bs a) = shared_bands bs a b"
  by (auto simp: bands_of_def shared_bands_def intro: filter_cong)

lemma min_max_spread_Some:
  "min_max_spread bs is (Some m) = Some (Min (set (m # spreads bs is)))"
proof (induction "is" arbitrary: m)
  case Nil
  then show ?case by simp
next
  case (Cons i "is")
  show ?case
  proof (cases "max_spread (bs ! i)")
    case None
    then show ?thesis using Cons.IH [of m] by (simp add: spreads_Cons)
  next
    case (Some s)
    have "Min (insert (min m s) (set (spreads bs is))) = Min (insert m (insert s (set (spreads bs is))))"
      by (cases "spreads bs is = []") (simp_all add: min.assoc)
    then show ?thesis using Cons.IH [of "min m s"] Some by (simp add: spreads_Cons)
  qed
qed

lemma min_max_spread_None:
  "min_max_spread bs is None =
     (if spreads bs is = [] then None else Some (Min (set (spreads bs is))))"
proof (induction "is")
  case Nil
  then show ?case by simp
next
  case (Cons i "is")
  then show ?case
    by (cases "max_spread (bs ! i)") (simp_all add: spreads_Cons min_max_spread_Some)
qed

lemma max_max_spread_acc:
  "max_max_spread bs is acc = Max (set (acc # spreads bs is))"
proof (induction "is" arbitrary: acc)
  case Nil
  then show ?case by simp
next
  case (Cons i "is")
  show ?case
  proof (cases "max_spread (bs ! i)")
    case None
    then show ?thesis using Cons.IH [of acc] by (simp add: spreads_Cons)
  next
    case (Some s)
    have "Max (insert (max acc s) (set (spreads bs is))) = Max (insert acc (insert s (set (spreads bs is))))"
      by (cases "spreads bs is = []") (simp_all add: max.assoc)
    then show ?thesis using Cons.IH [of "max acc s"] Some by (simp add: spreads_Cons)
  qed
qed



lemma check_age_compatibility_no_legacy:
  "max_age_difference ar = None \<longrightarrow>
     (check_age_compatibility (Some a) (Some b) (Some ar) \<longleftrightarrow>
        bands_of (bands ar) a \<noteq> [] \<and> bands_of (bands ar) b \<noteq> [] \<and>
        (if shared_bands (bands ar) a b \<noteq> [] then
           spreads (bands ar) (shared_bands (bands ar) a b) = [] \<or>
           \<bar>a - b\<bar> \<le> Min (set (spreads (bands ar) (shared_bands (bands ar) a b)))
         else allow_cross_band ar \<and>
           \<bar>a - b\<bar> \<le> Max (set (0 # spreads (bands ar)
                                   (bands_of (bands ar) a @ bands_of (bands ar) b)))))"

  by (simp add: check_age_compatibility_def Let_def common_is_shared min_max_spread_None
      max_max_spread_acc del: set_simps)


lemma bands_of_eval:
  "bands_of [twenties] 19 = []" "bands_of [twenties] 21 = [0]"
  "bands_of [twenties, late_twenties] 25 = [0, 1]"
  "bands_of [twenties, late_twenties] 29 = [0, 1]"
  by (simp_all add: bands_of_def in_band_def twenties_def late_twenties_def)

lemma shared_eval:
  "shared_bands [twenties] 19 21 = []"
  "shared_bands [twenties, late_twenties] 25 29 = [0, 1]"
  by (simp_all add: shared_bands_def in_band_def twenties_def late_twenties_def)



section \<open>Text, cells and frames\<close>

text \<open>
  Text is a list of bytes (UTF-8). The model is exact for text whose characters outside
  ASCII are printable and are not white space, as the Hebrew letters of the survey are.
\<close>

definition is_space :: "char \<Rightarrow> bool" where
  "is_space c \<longleftrightarrow> (let n = (of_char c :: nat) in (9 \<le> n \<and> n \<le> 13) \<or> (28 \<le> n \<and> n \<le> 32))"

definition strip :: "string \<Rightarrow> string" where
  "strip s = rev (dropWhile is_space (rev (dropWhile is_space s)))"

text \<open>\<^verbatim>\<open>s.split(",")\<close>: never empty; the empty text gives one empty part.\<close>

fun split_comma :: "string \<Rightarrow> string list" where
  "split_comma [] = [[]]"
| "split_comma (c # cs) =
     (if c = CHR '','' then [] # split_comma cs
      else (case split_comma cs of [] \<Rightarrow> [[c]] | p # ps \<Rightarrow> (c # p) # ps))"

text \<open>\<^verbatim>\<open>repr\<close> of a text, and \<^verbatim>\<open>str\<close> of a list of texts.\<close>

definition hexdigit :: "nat \<Rightarrow> char" where
  "hexdigit n = ''0123456789abcdef'' ! (n mod 16)"

definition repr_char :: "char \<Rightarrow> char \<Rightarrow> string" where
  "repr_char quote c =
     (let n = (of_char c :: nat) in
      if c = quote \<or> c = CHR 0x5C then [CHR 0x5C, c]
      else if n = 9 then [CHR 0x5C, CHR ''t'']
      else if n = 10 then [CHR 0x5C, CHR ''n'']
      else if n = 13 then [CHR 0x5C, CHR ''r'']
      else if n < 32 \<or> n = 127 then [CHR 0x5C, CHR ''x'', hexdigit (n div 16), hexdigit n]
      else [c])"

definition py_repr :: "string \<Rightarrow> string" where
  "py_repr s =
     (let quote = (if CHR 0x27 \<in> set s \<and> CHR 0x22 \<notin> set s then CHR 0x22 else CHR 0x27)
      in [quote] @ concat (map (repr_char quote) s) @ [quote])"

fun join :: "string \<Rightarrow> string list \<Rightarrow> string" where
  "join sep [] = []"
| "join sep [x] = x"
| "join sep (x # y # ys) = x @ sep @ join sep (y # ys)"

text \<open>
  A cell of a text column: missing (NaN), a text, or a list of texts (the service stores
  expanded answers as lists). \<^verbatim>\<open>str(val)\<close> is \<^verbatim>\<open>'nan'\<close> for a missing cell.
\<close>

datatype cell = NaN | Str string | Lst "string list"

fun py_str :: "cell \<Rightarrow> string" where
  "py_str NaN = ''nan''"
| "py_str (Str s) = s"
| "py_str (Lst xs) = ''['' @ join '', '' (map py_repr xs) @ '']''"

text \<open>
  What \<^verbatim>\<open>pd.isna(value)\<close> and \<^verbatim>\<open>float(value)\<close> make of a value: it is missing (NaN or
  \<^verbatim>\<open>None\<close>), or \<^verbatim>\<open>float\<close> raises \<^verbatim>\<open>ValueError\<close> on it, or \<^verbatim>\<open>float\<close> returns a number.
\<close>

datatype scalar = Missing | Invalid | Number real

text \<open>
  A row offers four views of a column: the cell as text; the number that
  \<^verbatim>\<open>pd.to_numeric(..., errors='coerce')\<close> reads from it, \<^verbatim>\<open>None\<close> for NaN; that number as
  a signed 64-bit integer when \<^verbatim>\<open>pd.to_numeric\<close> reads an integer (a column all of whose
  values are read so is held as \<^verbatim>\<open>int64\<close>, any other column as \<^verbatim>\<open>float64\<close>); and what
  \<^verbatim>\<open>pd.isna\<close> and \<^verbatim>\<open>float\<close> make of the value, which is not always what
  \<^verbatim>\<open>pd.to_numeric\<close> reads (\<^verbatim>\<open>float('1_000')\<close> is 1000, \<^verbatim>\<open>pd.to_numeric\<close> gives NaN).
  Numbers are real numbers: the rounding of floating-point arithmetic, infinities, and columns
  held as unsigned integers or as booleans are outside the model. A frame has a row index
  \<^verbatim>\<open>0..n-1\<close> (what \<^verbatim>\<open>pd.read_csv\<close> and the service produce), so labels are positions.
\<close>

record row =
  cat :: "string \<Rightarrow> cell"
  num :: "string \<Rightarrow> real option"
  int64 :: "string \<Rightarrow> 64 word option"
  flt :: "string \<Rightarrow> scalar"

record frame =
  columns :: "string list"
  rows :: "row list"

datatype py_error = ValueError | KeyError | IndexError

text \<open>\<^verbatim>\<open>df.iloc[indices]\<close> and \<^verbatim>\<open>df.loc[indices]\<close>: the rows at the given positions.\<close>

definition iloc :: "frame \<Rightarrow> nat list \<Rightarrow> py_error + row list" where
  "iloc df idxs =
     (if list_all (\<lambda>i. i < length (rows df)) idxs then Inr (map (\<lambda>i. rows df ! i) idxs)
      else Inl IndexError)"

definition loc :: "frame \<Rightarrow> nat list \<Rightarrow> py_error + row list" where
  "loc df idxs =
     (if list_all (\<lambda>i. i < length (rows df)) idxs then Inr (map (\<lambda>i. rows df ! i) idxs)
      else Inl KeyError)"

section \<open>Module configuration of the worker\<close>

text \<open>
  The module-level constants read from \<^verbatim>\<open>CONFIG\<close>. Dictionaries that the code only
  iterates are lists of their items in order.
\<close>

record config =
  GROUP_SIZE :: nat
  CUT_CATEGORICAL :: "string list"
  CUT_MULTI :: "string list"
  CUT_NUMERIC_TOL :: "(string \<times> real) list"
  DEFINE_NUMERIC :: "string list"
  AGE_RULES :: "age_rules option"
  SOFT_CATEGORICAL :: "(string \<times> string) list"
  SOFT_MULTI_CHOICE :: "(string \<times> string) list"
  BETA_DIVERSITY :: real
  GAMMA_SIMILARITY :: real
  CATEGORICAL_DIVERSITY :: real
  MULTI_CHOICE_OVERLAP :: real
  FLEXIBLE_ANSWERS :: "string set"

section \<open>Normalization of flexible answers\<close>

type_synonym normalization_rules = "string \<rightharpoonup> (string \<rightharpoonup> string set)"

definition skip_columns :: "string list" where
  "skip_columns =
     [''Email'',
      map char_of [215, 169, 215, 157, 32, 215, 158, 215, 156, 215, 144 :: nat],
      map char_of [215, 158, 215, 161, 215, 164, 215, 168, 32, 215, 152, 215, 156, 215, 164,
                   215, 149, 215, 159 :: nat]]"

text \<open>\<^verbatim>\<open>set(df[col].dropna().astype(str))\<close>\<close>

definition unique_values :: "frame \<Rightarrow> string \<Rightarrow> string set" where
  "unique_values df col = set (map py_str (filter (\<lambda>c. c \<noteq> NaN) (map (\<lambda>r. cat r col) (rows df))))"

text \<open>
  \<^verbatim>\<open>build_normalization_rules(df)\<close> updates the global \<^verbatim>\<open>NORMALIZATION_RULES\<close>: a column
  with both flexible and concrete answers maps each of its flexible answers to the set of its
  concrete answers. Other columns keep the rule they had.
\<close>

definition column_rule :: "string set \<Rightarrow> frame \<Rightarrow> string \<Rightarrow> (string \<rightharpoonup> string set) option" where
  "column_rule flexible df col =
     (let unique = unique_values df col;
          flexible_in_col = unique \<inter> flexible;
          concrete_in_col = unique - flexible_in_col
      in if flexible_in_col \<noteq> {} \<and> concrete_in_col \<noteq> {}
         then Some (\<lambda>a. if a \<in> flexible_in_col then Some concrete_in_col else None)
         else None)"

definition build_normalization_rules ::
  "string set \<Rightarrow> frame \<Rightarrow> normalization_rules \<Rightarrow> normalization_rules" where
  "build_normalization_rules flexible df rules =
     (\<lambda>col. if col \<in> set (columns df) \<and> col \<notin> set skip_columns
             then (case column_rule flexible df col of Some r \<Rightarrow> Some r | None \<Rightarrow> rules col)
             else rules col)"

text \<open>\<^verbatim>\<open>normalize_answer(answer, column)\<close> of the worker.\<close>

definition normalize_answer :: "normalization_rules \<Rightarrow> string \<Rightarrow> string \<Rightarrow> string set" where
  "normalize_answer rules answer column =
     (case rules column of
        None \<Rightarrow> {answer}
      | Some r \<Rightarrow> (case r answer of Some expansion \<Rightarrow> expansion | None \<Rightarrow> {answer}))"

text \<open>
  \<^verbatim>\<open>to_set(val, column)\<close>. The guard \<^verbatim>\<open>pd.isna(val) or val == ""\<close> applies
  \<^verbatim>\<open>pd.isna\<close> to a list elementwise and takes the truth value of the resulting array,
  which raises \<^verbatim>\<open>ValueError\<close> for two or more elements; an empty array counts as false
  (NumPy before 2.2).
\<close>

definition union_normalized :: "normalization_rules \<Rightarrow> string option \<Rightarrow> string list \<Rightarrow> string set" where
  "union_normalized rules column parts =
     (case column of
        None \<Rightarrow> set parts
      | Some col \<Rightarrow> if col = [] then set parts
                    else (\<Union>p \<in> set parts. normalize_answer rules p col))"

fun to_set :: "normalization_rules \<Rightarrow> cell \<Rightarrow> string option \<Rightarrow> py_error + string set" where
  "to_set rules NaN column = Inr {}"
| "to_set rules (Str s) column =
     (if s = [] then Inr {}
      else Inr (union_normalized rules column
                  (filter (\<lambda>v. v \<noteq> []) (map strip (split_comma s)))))"
| "to_set rules (Lst xs) column =
     (if length xs \<ge> 2 then Inl ValueError
      else Inr (union_normalized rules column (filter (\<lambda>v. v \<noteq> []) (map strip xs))))"


section \<open>Pairwise hard constraints of the worker\<close>

text \<open>\<^verbatim>\<open>a.get(col, "")\<close> and \<^verbatim>\<open>a.get(col, np.nan)\<close> on a row of a frame.\<close>

definition get_cat :: "string list \<Rightarrow> row \<Rightarrow> string \<Rightarrow> cell" where
  "get_cat cols r col = (if col \<in> set cols then cat r col else Str [])"

definition get_flt :: "string list \<Rightarrow> row \<Rightarrow> string \<Rightarrow> scalar" where
  "get_flt cols r col = (if col \<in> set cols then flt r col else Missing)"

fun map_err :: "('a \<Rightarrow> py_error + 'b) \<Rightarrow> 'a list \<Rightarrow> py_error + 'b list" where
  "map_err f [] = Inr []"
| "map_err f (x # xs) =
     (case f x of
        Inl e \<Rightarrow> Inl e
      | Inr y \<Rightarrow> (case map_err f xs of Inl e \<Rightarrow> Inl e | Inr ys \<Rightarrow> Inr (y # ys)))"

definition categorical_passed :: "normalization_rules \<Rightarrow> cell \<Rightarrow> cell \<Rightarrow> string \<Rightarrow> bool" where
  "categorical_passed rules va vb col =
     (let sa = normalize_answer rules (strip (py_str va)) col;
          sb = normalize_answer rules (strip (py_str vb)) col
      in sa \<inter> sb \<noteq> {})"

definition multi_passed :: "normalization_rules \<Rightarrow> cell \<Rightarrow> cell \<Rightarrow> string \<Rightarrow> py_error + bool" where
  "multi_passed rules va vb col =
     (case to_set rules va (Some col) of
        Inl e \<Rightarrow> Inl e
      | Inr A \<Rightarrow> (case to_set rules vb (Some col) of
                    Inl e \<Rightarrow> Inl e
                  | Inr B \<Rightarrow> Inr (A \<inter> B \<noteq> {})))"

text \<open>
  The check of one numeric field in \<^verbatim>\<open>pass_pairwise_cuts\<close>, its variable \<^verbatim>\<open>passed\<close>: false
  when a value is missing, \<^verbatim>\<open>abs(float(va) - float(vb)) <= tol\<close> otherwise, and false when
  \<^verbatim>\<open>float\<close> raises.
\<close>

definition numeric_passed :: "scalar \<Rightarrow> scalar \<Rightarrow> real \<Rightarrow> bool" where
  "numeric_passed va vb tol =
     (if va = Missing \<or> vb = Missing then False
      else (case va of
              Number x \<Rightarrow> (case vb of Number y \<Rightarrow> \<bar>x - y\<bar> \<le> tol | _ \<Rightarrow> False)
            | _ \<Rightarrow> False))"

text \<open>
  \<^verbatim>\<open>pass_pairwise_cuts(a, b)\<close>, the result without the explanation. No loop stops early,
  so every multi-choice column is converted even after a failed check.
\<close>

definition pass_pairwise_cuts ::
  "config \<Rightarrow> normalization_rules \<Rightarrow> string list \<Rightarrow> row \<Rightarrow> row \<Rightarrow> py_error + bool" where
  "pass_pairwise_cuts cfg rules cols a b =
     (let categorical = list_all (\<lambda>col. categorical_passed rules (get_cat cols a col)
                                          (get_cat cols b col) col) (CUT_CATEGORICAL cfg)
      in case map_err (\<lambda>col. multi_passed rules (get_cat cols a col) (get_cat cols b col) col)
                (CUT_MULTI cfg) of
           Inl e \<Rightarrow> Inl e
         | Inr multi \<Rightarrow>
             Inr (categorical \<and> list_all (\<lambda>p. p) multi \<and>
                  list_all (\<lambda>(col, tol). numeric_passed (get_flt cols a col) (get_flt cols b col) tol)
                    (CUT_NUMERIC_TOL cfg)))"

section \<open>Compatibility matrices\<close>

type_synonym matrix = "bool list list"

definition mk_matrix :: "nat \<Rightarrow> (nat \<Rightarrow> nat \<Rightarrow> bool) \<Rightarrow> matrix" where
  "mk_matrix n f = map (\<lambda>i. map (f i) [0..<n]) [0..<n]"

text \<open>\<^verbatim>\<open>compat & layer\<close> (\<^verbatim>\<open>compat.multiply(layer)\<close> on sparse matrices).\<close>

definition mat_and :: "matrix \<Rightarrow> matrix \<Rightarrow> matrix" where
  "mat_and a b = map2 (map2 (\<and>)) a b"

text \<open>\<^verbatim>\<open>compat[np.diag_indices(n)] = True\<close>\<close>

definition set_diag :: "matrix \<Rightarrow> matrix" where
  "set_diag m = map (\<lambda>(i, r). r[i := True]) (enumerate 0 m)"

subsection \<open>The worker's vectorized builder\<close>

definition categorical_layer :: "normalization_rules \<Rightarrow> row list \<Rightarrow> string \<Rightarrow> matrix" where
  "categorical_layer rules rs col =
     (let normalized_values = map (\<lambda>r. normalize_answer rules (strip (py_str (cat r col))) col) rs
      in mk_matrix (length rs) (\<lambda>i j. normalized_values ! i \<inter> normalized_values ! j \<noteq> {}))"

text \<open>Only pairs \<^verbatim>\<open>i < j\<close> are computed and mirrored; the diagonal is set afterwards.\<close>

definition multi_layer :: "normalization_rules \<Rightarrow> row list \<Rightarrow> string \<Rightarrow> py_error + matrix" where
  "multi_layer rules rs col =
     (case map_err (\<lambda>r. to_set rules (cat r col) (Some col)) rs of
        Inl e \<Rightarrow> Inl e
      | Inr sets_list \<Rightarrow>
          Inr (set_diag (mk_matrix (length rs)
                 (\<lambda>i j. i \<noteq> j \<and> sets_list ! (min i j) \<inter> sets_list ! (max i j) \<noteq> {}))))"

definition age_layer :: "age_rules \<Rightarrow> row list \<Rightarrow> matrix" where
  "age_layer ar rs =
     (let ages_array = map (\<lambda>r. num r (age_field ar)) rs
      in mk_matrix (length rs)
           (\<lambda>i j. if i = j then True
                   else if \<not> (ages_array ! i = None \<or> ages_array ! j = None)
                   then check_age_compatibility (ages_array ! i) (ages_array ! j) (Some ar)
                   else False))"

text \<open>
  \<^verbatim>\<open>np.abs(a - b) <= tol\<close> on two entries of a \<^verbatim>\<open>float64\<close> array: false where one is NaN.
\<close>

definition within_tol :: "real option \<Rightarrow> real option \<Rightarrow> real \<Rightarrow> bool" where
  "within_tol va vb tol =
     (case va of None \<Rightarrow> False
      | Some x \<Rightarrow> (case vb of None \<Rightarrow> False | Some y \<Rightarrow> \<bar>x - y\<bar> \<le> tol))"

text \<open>
  \<^verbatim>\<open>np.abs\<close> on an \<^verbatim>\<open>int64\<close> entry: the negation wraps around, so the absolute value of
  the smallest integer is itself.
\<close>

definition abs64 :: "64 word \<Rightarrow> 64 word" where
  "abs64 w = (if sint w < 0 then - w else w)"

text \<open>Whether \<^verbatim>\<open>pd.to_numeric\<close> holds the column of these rows as \<^verbatim>\<open>int64\<close>.\<close>

definition int64_column :: "row list \<Rightarrow> string \<Rightarrow> bool" where
  "int64_column rs col \<longleftrightarrow> list_all (\<lambda>r. int64 r col \<noteq> None) rs"

text \<open>
  The layer of one numeric field. On an \<^verbatim>\<open>int64\<close> column
  \<^verbatim>\<open>np.abs(np.subtract.outer(values, values))\<close> is computed in 64-bit arithmetic, which wraps
  around; no value is NaN there, so only the diagonal is set. On a \<^verbatim>\<open>float64\<close> column
  \<^verbatim>\<open>diff_matrix <= tol\<close> is false where a value is NaN; then the diagonal is set, the rows
  and columns of NaN values are cleared, and the diagonal is set again.
\<close>

definition numeric_layer :: "row list \<Rightarrow> string \<Rightarrow> real \<Rightarrow> matrix" where
  "numeric_layer rs col tol =
     (let n = length rs in
      if int64_column rs col then
        (let values_array = map (\<lambda>r. case int64 r col of Some w \<Rightarrow> w | None \<Rightarrow> 0) rs;
             compat_numeric = mk_matrix n
               (\<lambda>i j. real_of_int (sint (abs64 (values_array ! i - values_array ! j))) \<le> tol)
         in set_diag compat_numeric)
      else
        (let values_array = map (\<lambda>r. num r col) rs;
             compat_numeric = set_diag (mk_matrix n
                 (\<lambda>i j. within_tol (values_array ! i) (values_array ! j) tol));
             cleared = mat_and compat_numeric
                 (mk_matrix n (\<lambda>i j. values_array ! i \<noteq> None \<and> values_array ! j \<noteq> None))
         in set_diag cleared))"

fun apply_multi_layers ::
  "normalization_rules \<Rightarrow> string list \<Rightarrow> row list \<Rightarrow> string list \<Rightarrow> matrix \<Rightarrow> py_error + matrix" where
  "apply_multi_layers rules cols rs [] cmat = Inr cmat"
| "apply_multi_layers rules cols rs (col # rest) cmat =
     (if col \<in> set cols then
        (case multi_layer rules rs col of
           Inl e \<Rightarrow> Inl e
         | Inr compat_multi \<Rightarrow> apply_multi_layers rules cols rs rest (mat_and cmat compat_multi))
      else apply_multi_layers rules cols rs rest cmat)"

text \<open>
  \<^verbatim>\<open>build_compatibility_matrix_vectorized(df, indices)\<close>. The \<^verbatim>\<open>except\<close> branches of the
  age and numeric layers are entered only on a malformed configuration or on values of a type
  this model excludes, so they do not appear.
\<close>

definition build_compatibility_matrix_vectorized ::
  "config \<Rightarrow> normalization_rules \<Rightarrow> frame \<Rightarrow> nat list option \<Rightarrow> py_error + matrix" where
  "build_compatibility_matrix_vectorized cfg rules df indices =
     (let idxs = (case indices of None \<Rightarrow> [0..<length (rows df)] | Some l \<Rightarrow> l);
          n = length idxs
      in if n = 0 then Inr []
         else
          (case iloc df idxs of
             Inl e \<Rightarrow> Inl e
           | Inr df_subset \<Rightarrow>
              (let compat0 = mk_matrix n (\<lambda>i j. True);
                   compat1 = fold (\<lambda>col cmat.
                       if col \<in> set (columns df)
                       then mat_and cmat (categorical_layer rules df_subset col)
                       else cmat) (CUT_CATEGORICAL cfg) compat0
               in case apply_multi_layers rules (columns df) df_subset (CUT_MULTI cfg) compat1 of
                    Inl e \<Rightarrow> Inl e
                  | Inr compat2 \<Rightarrow>
                     (let compat3 = (case AGE_RULES cfg of
                              None \<Rightarrow> compat2
                            | Some ar \<Rightarrow>
                                if age_field ar \<in> set (columns df)
                                then mat_and compat2 (age_layer ar df_subset)
                                else compat2);
                          compat4 = fold (\<lambda>(col, tol) cmat.
                              if col \<in> set (columns df)
                              then mat_and cmat (numeric_layer df_subset col tol)
                              else cmat) (CUT_NUMERIC_TOL cfg) compat3
                      in Inr (set_diag compat4)))))"

subsection \<open>The service's builder\<close>

text \<open>What \<^verbatim>\<open>GroupingEngine._parse_policy\<close> reads from the policy, with its defaults.\<close>

record policy =
  group_size :: nat
  subspaces :: "string list list"
  categorical_equal :: "string list"
  multi_overlap :: "string list"
  numeric_tol :: "(string \<times> real) list"
  policy_age_rules :: "age_rules option"
  min_group_size :: nat
  max_group_size :: nat

definition check_categorical_match :: "cell \<Rightarrow> cell \<Rightarrow> bool" where
  "check_categorical_match val1 val2 =
     (let set_of = (\<lambda>v. case v of Lst xs \<Rightarrow> set xs | Str s \<Rightarrow> {strip s} | NaN \<Rightarrow> {});
          set1 = set_of val1;
          set2 = set_of val2
      in if set1 \<noteq> {} \<and> set2 \<noteq> {} then set1 \<inter> set2 \<noteq> {} else False)"

definition check_multi_overlap :: "cell \<Rightarrow> cell \<Rightarrow> bool" where
  "check_multi_overlap val1 val2 =
     (let set_of = (\<lambda>v. case v of Lst xs \<Rightarrow> set xs | _ \<Rightarrow> {})
      in set_of val1 \<inter> set_of val2 \<noteq> {})"

text \<open>
  The numeric tolerance of the service vetoes a pair only when both values are present:
  \<^verbatim>\<open>if pd.notna(val_i) and pd.notna(val_j): if abs(float(val_i) - float(val_j)) > tol: ...\<close>,
  where \<^verbatim>\<open>float\<close> is not guarded and raises on a value it cannot parse.
\<close>

definition engine_numeric_veto :: "scalar \<Rightarrow> scalar \<Rightarrow> real \<Rightarrow> py_error + bool" where
  "engine_numeric_veto val_i val_j tol =
     (if val_i \<noteq> Missing \<and> val_j \<noteq> Missing then
        (case val_i of
           Number x \<Rightarrow> (case val_j of Number y \<Rightarrow> Inr (\<bar>x - y\<bar> > tol) | _ \<Rightarrow> Inl ValueError)
         | _ \<Rightarrow> Inl ValueError)
      else Inr False)"

text \<open>
  The loop over \<^verbatim>\<open>numeric_tol.items()\<close> for one pair: it stops at the first veto, so the
  fields after it are not read. The result tells whether the pair was vetoed.
\<close>

fun engine_numeric_loop ::
  "string list \<Rightarrow> row \<Rightarrow> row \<Rightarrow> (string \<times> real) list \<Rightarrow> py_error + bool" where
  "engine_numeric_loop cols ri rj [] = Inr False"
| "engine_numeric_loop cols ri rj ((f, tol) # rest) =
     (if f \<in> set cols then
        (case engine_numeric_veto (flt ri f) (flt rj f) tol of
           Inl e \<Rightarrow> Inl e
         | Inr vetoed \<Rightarrow> if vetoed then Inr True else engine_numeric_loop cols ri rj rest)
      else engine_numeric_loop cols ri rj rest)"

definition engine_age_veto :: "age_rules option \<Rightarrow> string list \<Rightarrow> row \<Rightarrow> row \<Rightarrow> bool" where
  "engine_age_veto rules cols ri rj =
     (case rules of None \<Rightarrow> False
      | Some ar \<Rightarrow>
          if age_field ar \<in> set cols then
            (case num ri (age_field ar) of None \<Rightarrow> False
             | Some age_i \<Rightarrow> (case num rj (age_field ar) of None \<Rightarrow> False
                 | Some age_j \<Rightarrow> \<not> engine_check_age_compatibility rules age_i age_j))
          else False)"

text \<open>The body of the loop over \<^verbatim>\<open>i < j\<close>: the value left in \<^verbatim>\<open>compat[i, j]\<close>.\<close>

definition engine_pair_compatible ::
  "policy \<Rightarrow> string list \<Rightarrow> row \<Rightarrow> row \<Rightarrow> py_error + bool" where
  "engine_pair_compatible pol cols ri rj =
     (if list_ex (\<lambda>f. f \<in> set cols \<and> \<not> check_categorical_match (cat ri f) (cat rj f))
           (categorical_equal pol) then Inr False
      else if list_ex (\<lambda>f. f \<in> set cols \<and> \<not> check_multi_overlap (cat ri f) (cat rj f))
           (multi_overlap pol) then Inr False
      else
        (case engine_numeric_loop cols ri rj (numeric_tol pol) of
           Inl e \<Rightarrow> Inl e
         | Inr vetoed \<Rightarrow>
             if vetoed then Inr False
             else Inr (\<not> engine_age_veto (policy_age_rules pol) cols ri rj)))"

text \<open>
  \<^verbatim>\<open>GroupingEngine._build_compatibility_matrix(df, indices)\<close>, for the frame
  \<^verbatim>\<open>features_df.iloc[indices]\<close> that its caller passes, whose rows are given here. The
  loops over \<^verbatim>\<open>i\<close> and \<^verbatim>\<open>j > i\<close> end at the first pair whose check raises, and the only
  exception of a check is the \<^verbatim>\<open>ValueError\<close> of \<^verbatim>\<open>float\<close>.
\<close>

definition engine_build_compatibility_matrix ::
  "policy \<Rightarrow> string list \<Rightarrow> row list \<Rightarrow> py_error + matrix" where
  "engine_build_compatibility_matrix pol cols rs =
     (let n = length rs in
      if list_ex (\<lambda>i. list_ex (\<lambda>j. isl (engine_pair_compatible pol cols (rs ! i) (rs ! j)))
                       [Suc i..<n]) [0..<n]
      then Inl ValueError
      else Inr (set_diag (mk_matrix n
             (\<lambda>i j. i = j \<or>
                engine_pair_compatible pol cols (rs ! min i j) (rs ! max i j) = Inr True))))"

subsection \<open>Symmetry and reflexivity\<close>

definition square :: "nat \<Rightarrow> matrix \<Rightarrow> bool" where
  "square n m \<longleftrightarrow> length m = n \<and> list_all (\<lambda>r. length r = n) m"

definition symmetric :: "nat \<Rightarrow> matrix \<Rightarrow> bool" where
  "symmetric n m \<longleftrightarrow> square n m \<and> (\<forall>i<n. \<forall>j<n. m ! i ! j = m ! j ! i)"

lemma square_mk_matrix [simp]: "square n (mk_matrix n f)"
  by (simp add: square_def mk_matrix_def list_all_iff)

lemma nth_mk_matrix [simp]: "i < n \<Longrightarrow> j < n \<Longrightarrow> mk_matrix n f ! i ! j = f i j"
  by (simp add: mk_matrix_def)

lemma square_row: "square n m \<Longrightarrow> i < n \<Longrightarrow> length (m ! i) = n"
  by (simp add: square_def list_all_length)

lemma square_mat_and: "square n a \<Longrightarrow> square n b \<Longrightarrow> square n (mat_and a b)"
  by (auto simp: square_def mat_and_def list_all_length)

lemma nth_mat_and:
  "square n a \<Longrightarrow> square n b \<Longrightarrow> i < n \<Longrightarrow> j < n \<Longrightarrow>
   mat_and a b ! i ! j = (a ! i ! j \<and> b ! i ! j)"
  by (simp add: square_def mat_and_def list_all_length)

lemma square_set_diag: "square n m \<Longrightarrow> square n (set_diag m)"
  by (auto simp: square_def set_diag_def list_all_length nth_enumerate_eq)

lemma nth_set_diag:
  "square n m \<Longrightarrow> i < n \<Longrightarrow> j < n \<Longrightarrow> set_diag m ! i ! j = (i = j \<or> m ! i ! j)"
  by (auto simp: square_def set_diag_def list_all_length nth_enumerate_eq nth_list_update)

lemma symmetric_mk_matrix: "(\<And>i j. f i j = f j i) \<Longrightarrow> symmetric n (mk_matrix n f)"
  by (simp add: symmetric_def)

lemma symmetric_square: "symmetric n m \<Longrightarrow> square n m"
  by (simp add: symmetric_def)

lemma set_diag_diag: "square n m \<Longrightarrow> i < n \<Longrightarrow> set_diag m ! i ! i"
  by (simp add: nth_set_diag)

lemma symmetric_mat_and:
  assumes "symmetric n a" and "symmetric n b"
  shows "symmetric n (mat_and a b)"
proof -
  from assms have sq: "square n a" "square n b" by (simp_all add: symmetric_def)
  from assms have "\<forall>i<n. \<forall>j<n. mat_and a b ! i ! j = mat_and a b ! j ! i"
    by (simp add: nth_mat_and [OF sq] symmetric_def)
  with sq show ?thesis by (simp add: symmetric_def square_mat_and)
qed

lemma symmetric_set_diag: "symmetric n m \<Longrightarrow> symmetric n (set_diag m)"
  by (auto simp: symmetric_def square_set_diag nth_set_diag)

lemma check_age_compatibility_sym:
  "check_age_compatibility a b r = check_age_compatibility b a r"
proof (cases r)
  case None
  then show ?thesis by (simp add: check_age_compatibility_def)
next
  case (Some ar)
  show ?thesis
  proof (cases a)
    case None
    then show ?thesis by (simp add: check_age_compatibility_def split: option.splits)
  next
    case a: (Some x)
    show ?thesis
    proof (cases b)
      case None
      then show ?thesis by (simp add: check_age_compatibility_def split: option.splits)
    next
      case b: (Some y)
      have sh: "shared_bands (bands ar) x y = shared_bands (bands ar) y x"
        by (auto simp: shared_bands_def intro: filter_cong)
      have mx: "Max (set (0 # spreads (bands ar) (bands_of (bands ar) x @ bands_of (bands ar) y)))
              = Max (set (0 # spreads (bands ar) (bands_of (bands ar) y @ bands_of (bands ar) x)))"
        by (simp add: spreads_def List.map_filter_def Un_commute)
      have ab: "\<bar>x - y\<bar> = \<bar>y - x\<bar>" by simp
      show ?thesis
      proof (cases "max_age_difference ar")
        case None
        with check_age_compatibility_no_legacy [of ar x y] check_age_compatibility_no_legacy [of ar y x]
        show ?thesis unfolding a b Some sh mx ab by (simp only: conj_commute conj_left_commute) 
      next
        case (Some d)
        then show ?thesis using a b \<open>r = Some ar\<close>
          by (simp add: check_age_compatibility_def abs_minus_commute)
      qed
    qed
  qed
qed

lemma symmetric_categorical_layer: "symmetric (length rs) (categorical_layer rules rs col)"
  unfolding categorical_layer_def Let_def by (rule symmetric_mk_matrix) (simp add: Int_commute)

lemma symmetric_age_layer: "symmetric (length rs) (age_layer ar rs)"
  unfolding age_layer_def Let_def
  by (rule symmetric_mk_matrix) (auto simp: check_age_compatibility_sym)

lemma within_tol_sym: "within_tol a b tol = within_tol b a tol"
  by (simp add: within_tol_def abs_minus_commute split: option.splits)

lemma sint64_range: "- (2 ^ 63) \<le> sint (w :: 64 word)" "sint (w :: 64 word) < 2 ^ 63"
  using sint_ge [of w] sint_lt [of w] by simp_all

lemma sint_neg64:
  "sint (w :: 64 word) \<noteq> - (2 ^ 63) \<Longrightarrow> sint (- w) = - sint w"
  using sint64_range [of w]
  by (simp add: sint_word_ariths signed_take_bit_int_eq_self)

lemma neg64_min:
  assumes "sint (w :: 64 word) = - (2 ^ 63)"
  shows "- w = w"
proof -
  have "sint (- w) = signed_take_bit 63 (2 ^ 63 :: int)"
    using assms by (simp add: sint_word_ariths)
  moreover have "signed_take_bit 63 (2 ^ 63 :: int) \<le> 2 ^ 63 - 2 ^ Suc 63"
    by (rule signed_take_bit_int_less_eq) simp
  moreover have "- (2 ^ 63) \<le> signed_take_bit 63 (2 ^ 63 :: int)"
    by (rule signed_take_bit_int_greater_eq_minus_exp)
  ultimately have "sint (- w) = sint w" using assms by simp
  then show ?thesis by (rule signed_word_eqI)
qed

lemma abs64_minus: "abs64 (- w) = abs64 w"
proof (cases "sint w = - (2 ^ 63)")
  case True
  then show ?thesis by (simp add: neg64_min)
next
  case False
  from sint_neg64 [OF False] have n: "sint (- w) = - sint w" .
  have z: "sint w = 0 \<Longrightarrow> w = 0"
    using signed_word_eqI [of w 0] by simp
  show ?thesis using n z by (auto simp: abs64_def)
qed

lemma abs64_diff_commute: "abs64 (a - b) = abs64 (b - a)"
  using abs64_minus [of "a - b"] by simp


lemma symmetric_numeric_layer: "symmetric (length rs) (numeric_layer rs col tol)"
proof (cases "int64_column rs col")
  case True
  have "symmetric (length rs) (set_diag (mk_matrix (length rs)
      (\<lambda>i j. real_of_int (sint (abs64
          (map (\<lambda>r. case int64 r col of Some w \<Rightarrow> w | None \<Rightarrow> 0) rs ! i
           - map (\<lambda>r. case int64 r col of Some w \<Rightarrow> w | None \<Rightarrow> 0) rs ! j))) \<le> tol)))"
    by (intro symmetric_set_diag symmetric_mk_matrix) (simp add: abs64_diff_commute)
  with True show ?thesis by (simp add: numeric_layer_def Let_def)
next
  case False
  have "symmetric (length rs) (set_diag (mat_and
      (set_diag (mk_matrix (length rs)
         (\<lambda>i j. within_tol (map (\<lambda>r. num r col) rs ! i) (map (\<lambda>r. num r col) rs ! j) tol)))
      (mk_matrix (length rs)
         (\<lambda>i j. map (\<lambda>r. num r col) rs ! i \<noteq> None \<and> map (\<lambda>r. num r col) rs ! j \<noteq> None))))"
    by (intro symmetric_set_diag symmetric_mat_and symmetric_mk_matrix)
       (auto simp: within_tol_sym)
  with False show ?thesis by (simp add: numeric_layer_def Let_def)
qed

lemma symmetric_multi_layer:
  "multi_layer rules rs col = Inr m \<Longrightarrow> symmetric (length rs) m"
  unfolding multi_layer_def
  by (auto split: sum.splits intro!: symmetric_set_diag symmetric_mk_matrix
      simp: min.commute max.commute)

lemma symmetric_apply_multi_layers:
  "apply_multi_layers rules cols rs cs c = Inr m \<Longrightarrow> symmetric (length rs) c \<Longrightarrow>
   symmetric (length rs) m"
proof (induction cs arbitrary: c)
  case Nil
  then show ?case by simp
next
  case (Cons col rest)
  then show ?case
    by (auto split: if_splits sum.splits intro: symmetric_mat_and dest: symmetric_multi_layer)
qed

lemma symmetric_fold_categorical:
  "symmetric (length rs) c \<Longrightarrow>
   symmetric (length rs) (fold (\<lambda>col cmat. if col \<in> set cols
       then mat_and cmat (categorical_layer rules rs col) else cmat) cs c)"
  by (induction cs arbitrary: c) (simp_all add: symmetric_mat_and symmetric_categorical_layer)

lemma symmetric_fold_numeric:
  "symmetric (length rs) c \<Longrightarrow>
   symmetric (length rs) (fold (\<lambda>(col, tol) cmat. if col \<in> set cols
       then mat_and cmat (numeric_layer rs col tol) else cmat) cs c)"
  by (induction cs arbitrary: c)
     (auto simp: symmetric_mat_and symmetric_numeric_layer split: prod.splits)

lemma iloc_length: "iloc df idxs = Inr rs \<Longrightarrow> length rs = length idxs"
  by (auto simp: iloc_def split: if_splits)

lemma build_symmetric:
  assumes "build_compatibility_matrix_vectorized cfg rules df indices = Inr m"
  shows "symmetric (length m) m \<and> (\<forall>i<length m. m ! i ! i) \<and>
    length m = (case indices of None \<Rightarrow> length (rows df) | Some l \<Rightarrow> length l)"
proof -
  define idxs where "idxs = (case indices of None \<Rightarrow> [0..<length (rows df)] | Some l \<Rightarrow> l)"
  show ?thesis
  proof (cases "length idxs = 0")
    case True
    with assms have "m = []"
      by (simp add: build_compatibility_matrix_vectorized_def idxs_def Let_def)
    with True show ?thesis
      by (simp add: symmetric_def square_def idxs_def split: option.splits)
  next
    case False
    with assms obtain rs c2 where rs: "iloc df idxs = Inr rs"
      and c2: "apply_multi_layers rules (columns df) rs (CUT_MULTI cfg)
                 (fold (\<lambda>col cmat. if col \<in> set (columns df)
                     then mat_and cmat (categorical_layer rules rs col) else cmat)
                   (CUT_CATEGORICAL cfg) (mk_matrix (length idxs) (\<lambda>i j. True))) = Inr c2"
      and m: "m = set_diag (fold (\<lambda>(col, tol) cmat. if col \<in> set (columns df)
                     then mat_and cmat (numeric_layer rs col tol) else cmat) (CUT_NUMERIC_TOL cfg)
                  (case AGE_RULES cfg of None \<Rightarrow> c2
                   | Some ar \<Rightarrow> if age_field ar \<in> set (columns df)
                       then mat_and c2 (age_layer ar rs) else c2))"
      by (auto simp: build_compatibility_matrix_vectorized_def idxs_def [symmetric] Let_def
          split: sum.splits)
    have n: "length rs = length idxs" using rs by (rule iloc_length)
    have s0: "symmetric (length rs) (mk_matrix (length idxs) (\<lambda>i j. True))"
      unfolding n by (rule symmetric_mk_matrix) simp
    have s2: "symmetric (length rs) c2"
      using c2 symmetric_fold_categorical [OF s0] by (rule symmetric_apply_multi_layers)
    have s3: "symmetric (length rs) (case AGE_RULES cfg of None \<Rightarrow> c2
                   | Some ar \<Rightarrow> if age_field ar \<in> set (columns df)
                       then mat_and c2 (age_layer ar rs) else c2)"
      using s2 by (auto split: option.splits intro: symmetric_mat_and symmetric_age_layer)
    have s4: "symmetric (length rs) m"
      unfolding m by (intro symmetric_set_diag symmetric_fold_numeric s3)
    then have len: "length m = length rs" by (simp add: symmetric_def square_def)
    have "\<forall>i<length rs. m ! i ! i"
      unfolding m
      using symmetric_square [OF symmetric_fold_numeric [OF s3, of "columns df" "CUT_NUMERIC_TOL cfg"]]
      by (simp add: set_diag_diag)
    with s4 len n show ?thesis by (simp add: idxs_def split: option.splits)
  qed
qed

lemma engine_matrix_Inr:
  assumes "engine_build_compatibility_matrix pol cols rs = Inr m"
  shows "m = set_diag (mk_matrix (length rs)
           (\<lambda>i j. i = j \<or>
              engine_pair_compatible pol cols (rs ! min i j) (rs ! max i j) = Inr True))"
  using assms by (simp add: engine_build_compatibility_matrix_def Let_def split: if_splits)

lemma engine_symmetric:
  assumes "engine_build_compatibility_matrix pol cols rs = Inr m"
  shows "symmetric (length rs) m \<and> (\<forall>i<length rs. m ! i ! i)"
  unfolding engine_matrix_Inr [OF assms]
  by (auto intro!: symmetric_set_diag symmetric_mk_matrix set_diag_diag
      simp: min.commute max.commute)

subsection \<open>Concrete inputs\<close>

text \<open>A row from its text cells and its numbers, which are held as floating-point numbers;
  other cells are missing.\<close>

definition row_of :: "(string \<times> cell) list \<Rightarrow> (string \<times> real) list \<Rightarrow> row" where
  "row_of cs ns = \<lparr>cat = (\<lambda>c. case map_of cs c of Some v \<Rightarrow> v | None \<Rightarrow> NaN), num = map_of ns,
     int64 = (\<lambda>c. None),
     flt = (\<lambda>c. case map_of ns c of Some x \<Rightarrow> Number x | None \<Rightarrow> Missing)\<rparr>"

definition no_rules :: normalization_rules where
  "no_rules = Map.empty"

definition plain_config :: config where
  "plain_config = \<lparr>GROUP_SIZE = 6, CUT_CATEGORICAL = [], CUT_MULTI = [], CUT_NUMERIC_TOL = [],
     DEFINE_NUMERIC = [], AGE_RULES = None, SOFT_CATEGORICAL = [], SOFT_MULTI_CHOICE = [],
     BETA_DIVERSITY = 1, GAMMA_SIMILARITY = 0.2, CATEGORICAL_DIVERSITY = 0.1,
     MULTI_CHOICE_OVERLAP = 0.1, FLEXIBLE_ANSWERS = {}\<rparr>"

definition hard_config :: config where
  "hard_config = plain_config\<lparr>CUT_CATEGORICAL := [''language''], CUT_MULTI := [''area''],
     CUT_NUMERIC_TOL := [(''budget'', 2)], AGE_RULES := Some overlapping_rules\<rparr>"

definition three_people :: frame where
  "three_people = \<lparr>columns = [''language'', ''area'', ''budget'', ''age''],
     rows = [row_of [(''language'', Str ''he''), (''area'', Str ''north, south'')]
                    [(''budget'', 1), (''age'', 25)],
             row_of [(''language'', Str ''he''), (''area'', Str ''south'')]
                    [(''budget'', 2), (''age'', 27)],
             row_of [(''language'', Str ''en''), (''area'', Str '''')]
                    [(''age'', 26)]]\<rparr>"

definition plain_policy :: policy where
  "plain_policy = \<lparr>group_size = 6, subspaces = [], categorical_equal = [], multi_overlap = [],
     numeric_tol = [], policy_age_rules = None, min_group_size = 4, max_group_size = 8\<rparr>"

lemma three_people_matrix:
  "build_compatibility_matrix_vectorized hard_config no_rules three_people None
   = Inr [[True, True, False], [True, True, False], [False, False, True]]"
  by (simp add: build_compatibility_matrix_vectorized_def hard_config_def plain_config_def
      no_rules_def three_people_def row_of_def iloc_def Let_def mk_matrix_def mat_and_def
      set_diag_def categorical_layer_def multi_layer_def age_layer_def numeric_layer_def
      normalize_answer_def union_normalized_def strip_def is_space_def within_tol_def
      int64_column_def
      check_age_compatibility_def overlapping_rules_def bands_of_def in_band_def twenties_def
      late_twenties_def enumerate_eq_zip)

text \<open>
  Claim C1. Every matrix that the worker's vectorized builder returns, and every matrix that
  the service's builder returns, has one row and one column per record given to it, a true
  diagonal, and equal entries at \<^verbatim>\<open>[i, j]\<close> and \<^verbatim>\<open>[j, i]\<close>.
\<close>

theorem compatibility_matrix_symmetric_reflexive:
  "(build_compatibility_matrix_vectorized cfg rules df indices = Inr m \<longrightarrow>
      length m = (case indices of None \<Rightarrow> length (rows df) | Some l \<Rightarrow> length l) \<and>
      (\<forall>i<length m. \<forall>j<length m. m ! i ! i \<and> m ! i ! j = m ! j ! i))
   \<and> (engine_build_compatibility_matrix pol cols rs = Inr m' \<longrightarrow>
      length m' = length rs \<and>
      (\<forall>i<length rs. \<forall>j<length rs. m' ! i ! i \<and> m' ! i ! j = m' ! j ! i))"
proof -
  have worker: "length m = (case indices of None \<Rightarrow> length (rows df) | Some l \<Rightarrow> length l) \<and>
      (\<forall>i<length m. \<forall>j<length m. m ! i ! i \<and> m ! i ! j = m ! j ! i)"
    if b: "build_compatibility_matrix_vectorized cfg rules df indices = Inr m"
  proof -
    from build_symmetric [OF b] have "\<forall>i<length m. \<forall>j<length m. m ! i ! i \<and> m ! i ! j = m ! j ! i"
      by (simp add: symmetric_def)
    moreover from build_symmetric [OF b]
    have "length m = (case indices of None \<Rightarrow> length (rows df) | Some l \<Rightarrow> length l)"
      by simp
    ultimately show ?thesis by simp
  qed
  have engine: "length m' = length rs \<and>
      (\<forall>i<length rs. \<forall>j<length rs. m' ! i ! i \<and> m' ! i ! j = m' ! j ! i)"
    if e: "engine_build_compatibility_matrix pol cols rs = Inr m'"
    using engine_symmetric [OF e] by (simp add: symmetric_def square_def)
  from worker engine show ?thesis by blast
qed

lemma three_people_engine_matrix:
  "engine_build_compatibility_matrix plain_policy (columns three_people) (rows three_people)
   = Inr [[True, True, True], [True, True, True], [True, True, True]]"
  by (simp add: engine_build_compatibility_matrix_def plain_policy_def three_people_def
      mk_matrix_def set_diag_def engine_pair_compatible_def engine_age_veto_def
      enumerate_eq_zip Let_def upt_conv_Cons)

theorem compatibility_matrix_symmetric_reflexive_witness:
  "build_compatibility_matrix_vectorized hard_config no_rules three_people None
     = Inr [[True, True, False], [True, True, False], [False, False, True]]
   \<and> length [[True, True, False], [True, True, False], [False, False, True]] = 3
   \<and> (0::nat) < 3 \<and> (2::nat) < 3
   \<and> [[True, True, False], [True, True, False], [False, False, True]] ! 0 ! 0
   \<and> [[True, True, False], [True, True, False], [False, False, True]] ! 0 ! 2
     = [[True, True, False], [True, True, False], [False, False, True]] ! 2 ! 0
   \<and> engine_build_compatibility_matrix plain_policy (columns three_people) (rows three_people)
     = Inr [[True, True, True], [True, True, True], [True, True, True]]
   \<and> [[True, True, True], [True, True, True], [True, True, True]] ! 0 ! 2
     = [[True, True, True], [True, True, True], [True, True, True]] ! 2 ! 0"
  using compatibility_matrix_symmetric_reflexive [of hard_config no_rules three_people None
      "[[True, True, False], [True, True, False], [False, False, True]]" plain_policy
      "columns three_people" "rows three_people"
      "[[True, True, True], [True, True, True], [True, True, True]]"]
    three_people_matrix three_people_engine_matrix
  by (simp add: three_people_def)

subsection \<open>Entries of the layers\<close>

lemma map_err_Inr:
  "map_err f xs = Inr ys \<Longrightarrow> length ys = length xs \<and> (\<forall>k<length xs. f (xs ! k) = Inr (ys ! k))"
proof (induction xs arbitrary: ys)
  case Nil
  then show ?case by simp
next
  case (Cons x xs)
  then show ?case
    by (auto split: sum.splits simp: nth_Cons split: nat.splits)
qed

lemma multi_layer_entry:
  assumes "multi_layer rules rs col = Inr L" and "i < length rs" and "j < length rs" and "i \<noteq> j"
  shows "\<exists>A B. to_set rules (cat (rs ! i) col) (Some col) = Inr A \<and>
               to_set rules (cat (rs ! j) col) (Some col) = Inr B \<and>
               L ! i ! j = (A \<inter> B \<noteq> {})"
proof -
  from assms(1) obtain sets_list
    where sl: "map_err (\<lambda>r. to_set rules (cat r col) (Some col)) rs = Inr sets_list"
      and L: "L = set_diag (mk_matrix (length rs)
                 (\<lambda>i j. i \<noteq> j \<and> sets_list ! (min i j) \<inter> sets_list ! (max i j) \<noteq> {}))"
    by (auto simp: multi_layer_def split: sum.splits)
  from map_err_Inr [OF sl] assms(2,3)
  have "to_set rules (cat (rs ! i) col) (Some col) = Inr (sets_list ! i)"
    and "to_set rules (cat (rs ! j) col) (Some col) = Inr (sets_list ! j)"
    by simp_all
  moreover have "L ! i ! j = (sets_list ! i \<inter> sets_list ! j \<noteq> {})"
    using assms(2,3,4) unfolding L
    by (cases "i \<le> j")
       (simp_all add: nth_set_diag [OF square_mk_matrix] min_def max_def Int_commute)
  ultimately show ?thesis by blast
qed

lemma apply_multi_layers_entry:
  assumes "apply_multi_layers rules cols rs cs c = Inr m" and "symmetric (length rs) c"
    and "i < length rs" and "j < length rs" and "m ! i ! j"
  shows "c ! i ! j \<and>
         (\<forall>col\<in>set cs. col \<in> set cols \<longrightarrow>
            (\<exists>L. multi_layer rules rs col = Inr L \<and> L ! i ! j))"
  using assms
proof (induction cs arbitrary: c)
  case Nil
  then show ?case by simp
next
  case (Cons col rest)
  show ?case
  proof (cases "col \<in> set cols")
    case False
    with Cons show ?thesis by simp
  next
    case True
    with Cons.prems(1) obtain L where L: "multi_layer rules rs col = Inr L"
      and rest: "apply_multi_layers rules cols rs rest (mat_and c L) = Inr m"
      by (auto split: sum.splits)
    have sL: "symmetric (length rs) L" using L by (rule symmetric_multi_layer)
    have sc: "symmetric (length rs) (mat_and c L)"
      using Cons.prems(2) sL by (rule symmetric_mat_and)
    from Cons.IH [OF rest sc Cons.prems(3,4,5)]
    have a: "mat_and c L ! i ! j"
      and b: "\<forall>col\<in>set rest. col \<in> set cols \<longrightarrow>
            (\<exists>L. multi_layer rules rs col = Inr L \<and> L ! i ! j)"
      by simp_all
    from a have "c ! i ! j \<and> L ! i ! j"
      using nth_mat_and [OF symmetric_square [OF Cons.prems(2)] symmetric_square [OF sL]
          Cons.prems(3,4)] by simp
    with b L show ?thesis by auto
  qed
qed

lemma fold_numeric_entry:
  assumes "symmetric (length rs) c" and "i < length rs" and "j < length rs"
    and "fold (\<lambda>(col, tol) cmat. if col \<in> set cols
           then mat_and cmat (numeric_layer rs col tol) else cmat) cs c ! i ! j"
  shows "c ! i ! j \<and>
         (\<forall>(col, tol)\<in>set cs. col \<in> set cols \<longrightarrow> numeric_layer rs col tol ! i ! j)"
  using assms
proof (induction cs arbitrary: c)
  case Nil
  then show ?case by simp
next
  case (Cons p rest)
  obtain col tol where p: "p = (col, tol)" by (cases p)
  show ?case
  proof (cases "col \<in> set cols")
    case False
    with Cons p show ?thesis by simp
  next
    case True
    have sc: "symmetric (length rs) (mat_and c (numeric_layer rs col tol))"
      using Cons.prems(1) symmetric_numeric_layer by (rule symmetric_mat_and)
    from Cons.prems(4) True p
    have f: "fold (\<lambda>(col, tol) cmat. if col \<in> set cols
           then mat_and cmat (numeric_layer rs col tol) else cmat) rest
              (mat_and c (numeric_layer rs col tol)) ! i ! j"
      by simp
    from Cons.IH [OF sc Cons.prems(2,3) f]
    have a: "mat_and c (numeric_layer rs col tol) ! i ! j"
      and b: "\<forall>(col, tol)\<in>set rest. col \<in> set cols \<longrightarrow> numeric_layer rs col tol ! i ! j"
      by simp_all
    from a have "c ! i ! j \<and> numeric_layer rs col tol ! i ! j"
      using nth_mat_and [OF symmetric_square [OF Cons.prems(1)]
          symmetric_square [OF symmetric_numeric_layer] Cons.prems(2,3)] by simp
    with b p True show ?thesis by auto
  qed
qed




text \<open>The entries of a built matrix off the diagonal imply every layer's entry.\<close>

lemma build_entry:
  assumes b: "build_compatibility_matrix_vectorized cfg rules df (Some idxs) = Inr m"
    and i: "i < length idxs" and j: "j < length idxs" and ij: "i \<noteq> j" and e: "m ! i ! j"
  shows "\<exists>rs. iloc df idxs = Inr rs \<and>
     (\<forall>col\<in>set (CUT_MULTI cfg). col \<in> set (columns df) \<longrightarrow>
        (\<exists>L. multi_layer rules rs col = Inr L \<and> L ! i ! j)) \<and>
     (\<forall>(col, tol)\<in>set (CUT_NUMERIC_TOL cfg). col \<in> set (columns df) \<longrightarrow>
        numeric_layer rs col tol ! i ! j)"
proof -
  from i have ne: "length idxs \<noteq> 0" by auto
  with b obtain rs c2 where rs: "iloc df idxs = Inr rs"
      and c2: "apply_multi_layers rules (columns df) rs (CUT_MULTI cfg)
                 (fold (\<lambda>col cmat. if col \<in> set (columns df)
                     then mat_and cmat (categorical_layer rules rs col) else cmat)
                   (CUT_CATEGORICAL cfg) (mk_matrix (length idxs) (\<lambda>i j. True))) = Inr c2"
      and m: "m = set_diag (fold (\<lambda>(col, tol) cmat. if col \<in> set (columns df)
                     then mat_and cmat (numeric_layer rs col tol) else cmat) (CUT_NUMERIC_TOL cfg)
                  (case AGE_RULES cfg of None \<Rightarrow> c2
                   | Some ar \<Rightarrow> if age_field ar \<in> set (columns df)
                       then mat_and c2 (age_layer ar rs) else c2))"
    by (auto simp: build_compatibility_matrix_vectorized_def Let_def split: sum.splits)
  have n: "length rs = length idxs" using rs by (rule iloc_length)
  define c3 where "c3 = (case AGE_RULES cfg of None \<Rightarrow> c2
                   | Some ar \<Rightarrow> if age_field ar \<in> set (columns df)
                       then mat_and c2 (age_layer ar rs) else c2)"
  have s0: "symmetric (length rs) (mk_matrix (length idxs) (\<lambda>i j. True))"
    unfolding n by (rule symmetric_mk_matrix) simp
  have s1: "symmetric (length rs) (fold (\<lambda>col cmat. if col \<in> set (columns df)
                     then mat_and cmat (categorical_layer rules rs col) else cmat)
                   (CUT_CATEGORICAL cfg) (mk_matrix (length idxs) (\<lambda>i j. True)))"
    using s0 by (rule symmetric_fold_categorical)
  have s2: "symmetric (length rs) c2"
    using c2 s1 by (rule symmetric_apply_multi_layers)
  have s3: "symmetric (length rs) c3"
    unfolding c3_def using s2
    by (auto split: option.splits intro: symmetric_mat_and symmetric_age_layer)
  have i': "i < length rs" and j': "j < length rs" using i j n by simp_all
  have s4: "square (length rs) (fold (\<lambda>(col, tol) cmat. if col \<in> set (columns df)
                     then mat_and cmat (numeric_layer rs col tol) else cmat)
                   (CUT_NUMERIC_TOL cfg) c3)"
    using symmetric_fold_numeric [OF s3] by (rule symmetric_square)
  from e ij have e4: "fold (\<lambda>(col, tol) cmat. if col \<in> set (columns df)
                     then mat_and cmat (numeric_layer rs col tol) else cmat)
                   (CUT_NUMERIC_TOL cfg) c3 ! i ! j"
    unfolding m c3_def [symmetric] using nth_set_diag [OF s4 i' j'] by simp
  from fold_numeric_entry [OF s3 i' j' e4]
  have e3: "c3 ! i ! j"
    and num: "\<forall>(col, tol)\<in>set (CUT_NUMERIC_TOL cfg). col \<in> set (columns df) \<longrightarrow>
        numeric_layer rs col tol ! i ! j"
    by simp_all
  have e2: "c2 ! i ! j"
  proof (cases "AGE_RULES cfg")
    case None
    with e3 show ?thesis by (simp add: c3_def)
  next
    case (Some ar)
    show ?thesis
    proof (cases "age_field ar \<in> set (columns df)")
      case True
      with e3 Some have "mat_and c2 (age_layer ar rs) ! i ! j" by (simp add: c3_def)
      then show ?thesis
        using nth_mat_and [OF symmetric_square [OF s2]
            symmetric_square [OF symmetric_age_layer] i' j'] by simp
    next
      case False
      with e3 Some show ?thesis by (simp add: c3_def)
    qed
  qed
  from apply_multi_layers_entry [OF c2 s1 i' j' e2] rs num show ?thesis by blast
qed

lemma map_err_member:
  assumes "map_err f xs = Inr ys" and "x \<in> set xs"
  shows "\<exists>y\<in>set ys. f x = Inr y"
proof -
  from assms(2) obtain k where k: "k < length xs" "xs ! k = x" by (auto simp: in_set_conv_nth)
  with map_err_Inr [OF assms(1)] have "f x = Inr (ys ! k)" "k < length ys" by auto
  then show ?thesis by auto
qed

lemma to_set_missing: "v = NaN \<or> v = Str [] \<Longrightarrow> to_set rules v column = Inr {}"
  by auto

lemma multi_passed_missing:
  assumes "v = NaN \<or> v = Str []"
  shows "multi_passed rules v w col \<noteq> Inr True" and "multi_passed rules w v col \<noteq> Inr True"
  using assms by (auto simp: multi_passed_def split: sum.splits)

lemma pass_pairwise_cuts_multi:
  assumes "pass_pairwise_cuts cfg rules cols a b = Inr True" and "col \<in> set (CUT_MULTI cfg)"
  shows "multi_passed rules (get_cat cols a col) (get_cat cols b col) col = Inr True"
proof -
  from assms(1) obtain multi
    where m: "map_err (\<lambda>col. multi_passed rules (get_cat cols a col) (get_cat cols b col) col)
                (CUT_MULTI cfg) = Inr multi"
      and all: "list_all (\<lambda>p. p) multi"
    by (auto simp: pass_pairwise_cuts_def Let_def split: sum.splits)
  from map_err_member [OF m assms(2)] all show ?thesis by (auto simp: list_all_iff)
qed








lemma iloc_nth: "iloc df idxs = Inr rs \<Longrightarrow> i < length idxs \<Longrightarrow> rs ! i = rows df ! (idxs ! i)"
  by (auto simp: iloc_def split: if_splits)

text \<open>The positions a call of the vectorized builder selects (all rows by default).\<close>

definition selected :: "frame \<Rightarrow> nat list option \<Rightarrow> nat list" where
  "selected df indices = (case indices of None \<Rightarrow> [0..<length (rows df)] | Some l \<Rightarrow> l)"

lemma build_selected:
  "build_compatibility_matrix_vectorized cfg rules df indices =
   build_compatibility_matrix_vectorized cfg rules df (Some (selected df indices))"
  by (simp add: build_compatibility_matrix_vectorized_def selected_def split: option.splits)

lemma build_multi_missing:
  assumes b: "build_compatibility_matrix_vectorized cfg rules df indices = Inr m"
    and col: "col \<in> set (CUT_MULTI cfg)" "col \<in> set (columns df)"
    and i: "i < length (selected df indices)" and j: "j < length (selected df indices)"
    and ij: "i \<noteq> j"
    and v: "cat (rows df ! (selected df indices ! i)) col = NaN \<or>
            cat (rows df ! (selected df indices ! i)) col = Str []"
  shows "\<not> m ! i ! j" and "\<not> m ! j ! i"
proof -
  from b have b': "build_compatibility_matrix_vectorized cfg rules df
      (Some (selected df indices)) = Inr m"
    by (simp add: build_selected [symmetric])
  show "\<not> m ! i ! j"
  proof
    assume e: "m ! i ! j"
    from build_entry [OF b' i j ij e] col obtain rs L
      where rs: "iloc df (selected df indices) = Inr rs"
        and L: "multi_layer rules rs col = Inr L" "L ! i ! j"
      by blast
    have n: "length rs = length (selected df indices)" using rs by (rule iloc_length)
    from multi_layer_entry [OF L(1) _ _ ij] i j n obtain A B
      where "to_set rules (cat (rs ! i) col) (Some col) = Inr A" "L ! i ! j = (A \<inter> B \<noteq> {})"
      by auto
    with to_set_missing [OF v] iloc_nth [OF rs i] L(2) show False by simp
  qed
  show "\<not> m ! j ! i"
  proof
    assume e: "m ! j ! i"
    from ij have ji: "j \<noteq> i" by simp
    from build_entry [OF b' j i ji e] col obtain rs L
      where rs: "iloc df (selected df indices) = Inr rs"
        and L: "multi_layer rules rs col = Inr L" "L ! j ! i"
      by blast
    have n: "length rs = length (selected df indices)" using rs by (rule iloc_length)
    from multi_layer_entry [OF L(1) _ _ ji] i j n obtain A B
      where "to_set rules (cat (rs ! i) col) (Some col) = Inr B" "L ! j ! i = (A \<inter> B \<noteq> {})"
      by auto
    with to_set_missing [OF v] iloc_nth [OF rs i] L(2) show False by simp
  qed
qed

text \<open>
  Claim C10. A missing (NaN) or empty value on a hard multi-overlap field converts to the
  empty set; the pairwise multi-overlap check then fails against every other value, in
  either order, so \<^verbatim>\<open>pass_pairwise_cuts\<close> never passes such a pair; and in every matrix
  the vectorized builder returns, the record's entries off the diagonal are false.
\<close>

theorem missing_multi_value_never_paired:
  "(v = NaN \<or> v = Str [] \<longrightarrow>
      to_set rules v column = Inr {} \<and>
      multi_passed rules v w col \<noteq> Inr True \<and> multi_passed rules w v col \<noteq> Inr True)
   \<and> (col \<in> set (CUT_MULTI cfg) \<and> (get_cat cols a col = NaN \<or> get_cat cols a col = Str []) \<longrightarrow>
      pass_pairwise_cuts cfg rules cols a b \<noteq> Inr True \<and>
      pass_pairwise_cuts cfg rules cols b a \<noteq> Inr True)
   \<and> (build_compatibility_matrix_vectorized cfg rules df indices = Inr m \<and>
      col \<in> set (CUT_MULTI cfg) \<and> col \<in> set (columns df) \<and>
      i < length (selected df indices) \<and> j < length (selected df indices) \<and> i \<noteq> j \<and>
      (cat (rows df ! (selected df indices ! i)) col = NaN \<or>
       cat (rows df ! (selected df indices ! i)) col = Str []) \<longrightarrow>
      \<not> m ! i ! j \<and> \<not> m ! j ! i)"
proof -
  have pair: "pass_pairwise_cuts cfg rules cols a b \<noteq> Inr True \<and>
      pass_pairwise_cuts cfg rules cols b a \<noteq> Inr True"
    if "col \<in> set (CUT_MULTI cfg)"
      and "get_cat cols a col = NaN \<or> get_cat cols a col = Str []"
    using that pass_pairwise_cuts_multi [of cfg rules cols a b col]
      pass_pairwise_cuts_multi [of cfg rules cols b a col]
      multi_passed_missing [of "get_cat cols a col" rules "get_cat cols b col" col]
    by blast
  from pair to_set_missing [of v rules column] multi_passed_missing [of v rules w col]
    build_multi_missing [of cfg rules df indices m col i j]
  show ?thesis by blast
qed

definition area_config :: config where
  "area_config = plain_config\<lparr>CUT_MULTI := [''area'']\<rparr>"

lemma three_people_area_matrix:
  "build_compatibility_matrix_vectorized area_config no_rules three_people (Some [0, 2, 1])
   = Inr [[True, False, True], [False, True, False], [True, False, True]]"
  by (simp add: build_compatibility_matrix_vectorized_def area_config_def plain_config_def
      no_rules_def three_people_def row_of_def iloc_def Let_def mk_matrix_def mat_and_def
      set_diag_def multi_layer_def union_normalized_def normalize_answer_def strip_def
      is_space_def enumerate_eq_zip)

theorem missing_multi_value_never_paired_witness:
  "to_set no_rules (Str []) (Some ''area'') = Inr {}
   \<and> multi_passed no_rules (Str []) (Str ''south'') ''area'' = Inr False
   \<and> pass_pairwise_cuts area_config no_rules (columns three_people)
        (rows three_people ! 2) (rows three_people ! 1) = Inr False
   \<and> build_compatibility_matrix_vectorized area_config no_rules three_people (Some [0, 2, 1])
        = Inr [[True, False, True], [False, True, False], [True, False, True]]
   \<and> cat (rows three_people ! ([0, 2, 1] ! 1)) ''area'' = Str []
   \<and> \<not> [[True, False, True], [False, True, False], [True, False, True]] ! 1 ! 2
   \<and> \<not> [[True, False, True], [False, True, False], [True, False, True]] ! 2 ! 1"
  using missing_multi_value_never_paired [of "Str []" no_rules "Some ''area''" "Str ''south''"
      "''area''" area_config "columns three_people" "rows three_people ! 2"
      "rows three_people ! 1" three_people "Some [0, 2, 1]"
      "[[True, False, True], [False, True, False], [True, False, True]]" 1 2]
    three_people_area_matrix
  by (simp add: selected_def three_people_def row_of_def area_config_def plain_config_def
      pass_pairwise_cuts_def multi_passed_def get_cat_def no_rules_def union_normalized_def
      normalize_answer_def strip_def is_space_def)





















section \<open>Normalization in the service\<close>

text \<open>
  The rules \<^verbatim>\<open>NormalizationService.build_normalization_rules\<close> stores for a field that
  has a normalization configuration.
\<close>

record field_rules =
  wildcards :: "string set"
  expansion :: "string set"
  synonyms :: "string \<rightharpoonup> string"
  options :: "string set"

text \<open>
  \<^verbatim>\<open>NormalizationService.normalize_answer(value, field_name)\<close>. As in \<^verbatim>\<open>to_set\<close>, the
  guard \<^verbatim>\<open>pd.isna(value) or ...\<close> raises on a list of two or more elements.
\<close>

definition service_normalize_answer ::
  "string set \<Rightarrow> (string \<rightharpoonup> field_rules) \<Rightarrow> cell \<Rightarrow> string \<Rightarrow> py_error + string set" where
  "service_normalize_answer flexible_answers normalization_rules val field_name =
     (if val = NaN \<or> val = Str [] then Inr {}
      else if (case val of Lst xs \<Rightarrow> length xs \<ge> 2 | _ \<Rightarrow> False) then Inl ValueError
      else
        (let value_str = strip (py_str val)
         in case normalization_rules field_name of
              None \<Rightarrow> Inr {value_str}
            | Some rules \<Rightarrow>
                (let value_str = (case synonyms rules value_str of
                                    Some s \<Rightarrow> s | None \<Rightarrow> value_str)
                 in if value_str \<in> wildcards rules \<or> value_str \<in> flexible_answers then
                      (if expansion rules \<noteq> {} then Inr (expansion rules)
                       else if options rules \<noteq> {} then Inr (options rules)
                       else Inr {value_str})
                    else Inr {value_str})))"

text \<open>Flexible answers and rules used as concrete inputs.\<close>

definition some_flexible :: "string set" where
  "some_flexible = {''any'', ''both''}"

definition language_rules :: "string \<rightharpoonup> field_rules" where
  "language_rules = [''language'' \<mapsto>
     \<lparr>wildcards = {}, expansion = {''he''}, synonyms = Map.empty, options = {''he'', ''en''}\<rparr>]"

definition language_frame :: frame where
  "language_frame = \<lparr>columns = [''language''],
     rows = [row_of [(''language'', Str ''any'')] [],
             row_of [(''language'', Str ''he'')] [],
             row_of [(''language'', Str ''en'')] []]\<rparr>"

subsection \<open>Wildcard expansion\<close>

lemma build_rule_lookup:
  assumes col: "col \<in> set (columns df)" "col \<notin> set skip_columns"
    and a: "a \<in> set (rows df)" "cat a col = Str w" "w \<in> flexible"
    and b: "b \<in> set (rows df)" "cat b col = Str c" "c \<notin> flexible"
  shows "\<exists>r concrete. build_normalization_rules flexible df rules0 col = Some r \<and>
           r w = Some concrete \<and> c \<in> concrete \<and> r c = None"
proof -
  have w: "w \<in> unique_values df col"
    unfolding unique_values_def using a(1,2) by (force simp: image_iff)
  have c: "c \<in> unique_values df col"
    unfolding unique_values_def using b(1,2) by (force simp: image_iff)
  let ?flex = "unique_values df col \<inter> flexible"
  let ?conc = "unique_values df col - ?flex"
  have "column_rule flexible df col =
          Some (\<lambda>a. if a \<in> ?flex then Some ?conc else None)"
    using w c a(3) b(3) by (auto simp: column_rule_def Let_def)
  then have "build_normalization_rules flexible df rules0 col =
          Some (\<lambda>a. if a \<in> ?flex then Some ?conc else None)"
    using col by (simp add: build_normalization_rules_def)
  moreover have "w \<in> ?flex" "c \<in> ?conc" "c \<notin> ?flex" using w c a(3) b(3) by auto
  ultimately show ?thesis by auto
qed

lemma worker_wildcard:
  assumes col: "col \<in> set (columns df)" "col \<notin> set skip_columns"
    and a: "a \<in> set (rows df)" "cat a col = Str w" "w \<in> flexible" "strip w = w"
    and b: "b \<in> set (rows df)" "cat b col = Str c" "c \<notin> flexible" "strip c = c"
  shows "categorical_passed (build_normalization_rules flexible df rules0)
           (cat a col) (cat b col) col"
proof -
  from build_rule_lookup [OF col a(1,2,3) b(1,2,3), of rules0] obtain r concrete
    where r: "build_normalization_rules flexible df rules0 col = Some r"
      "r w = Some concrete" "c \<in> concrete" "r c = None"
    by blast
  then show ?thesis
    using a(2,4) b(2,4) by (auto simp: categorical_passed_def normalize_answer_def Let_def)
qed

lemma service_known_field:
  assumes "normalization_rules f = Some fr" and "v \<noteq> []"
  shows "service_normalize_answer flexible_answers normalization_rules (Str v) f =
           Inr (let s = (case synonyms fr (strip v) of Some t \<Rightarrow> t | None \<Rightarrow> strip v)
                in if s \<in> wildcards fr \<or> s \<in> flexible_answers
                   then (if expansion fr \<noteq> {} then expansion fr
                         else if options fr \<noteq> {} then options fr else {s})
                   else {s})"
  using assms by (auto simp: service_normalize_answer_def Let_def)

lemma check_categorical_match_lists:
  "check_categorical_match (Lst xs) (Lst ys) \<longleftrightarrow> set xs \<inter> set ys \<noteq> {}"
  by (auto simp: check_categorical_match_def Let_def)

text \<open>
  Claim C6, as amended. In the worker, after \<^verbatim>\<open>build_normalization_rules\<close> has run on the
  frame, a record whose value on a column (not one of the skipped columns) is a flexible answer
  and a record of the frame whose value on that column is not flexible pass the pairwise
  categorical check on that column, when both values are texts without surrounding white
  space: the flexible answer expands to the concrete answers found in the column. In the
  service, for a field with normalization rules, a non-empty text answer is stripped and then
  replaced by its synonym when the field defines one; if the result is a wildcard of the field
  or a flexible answer, it expands to the field's expansion set, to the field's options when
  the expansion is empty, and to itself when both are empty; otherwise it stays a singleton;
  and a wildcard and a concrete answer match in the service's categorical check iff the
  concrete answer, after synonyms, is in the expanded set.
\<close>

theorem wildcard_expansion:
  "(col \<in> set (columns df) \<and> col \<notin> set skip_columns \<and>
      a \<in> set (rows df) \<and> cat a col = Str w \<and> w \<in> flexible \<and> strip w = w \<and>
      b \<in> set (rows df) \<and> cat b col = Str c \<and> c \<notin> flexible \<and> strip c = c \<longrightarrow>
      categorical_passed (build_normalization_rules flexible df rules0) (cat a col) (cat b col) col)
   \<and> (normalization_rules f = Some fr \<and> w' \<noteq> [] \<and> c' \<noteq> [] \<and>
      sw = (case synonyms fr (strip w') of Some t \<Rightarrow> t | None \<Rightarrow> strip w') \<and>
      sc = (case synonyms fr (strip c') of Some t \<Rightarrow> t | None \<Rightarrow> strip c') \<and>
      (sw \<in> wildcards fr \<or> sw \<in> flexible_answers) \<and>
      sc \<notin> wildcards fr \<and> sc \<notin> flexible_answers \<longrightarrow>
      (\<exists>A. service_normalize_answer flexible_answers normalization_rules (Str w') f = Inr A \<and>
           A = (if expansion fr \<noteq> {} then expansion fr
                else if options fr \<noteq> {} then options fr else {sw}) \<and>
           service_normalize_answer flexible_answers normalization_rules (Str c') f
             = Inr {sc} \<and>
           (\<forall>xs ys. set xs = A \<and> set ys = {sc} \<longrightarrow>
              (check_categorical_match (Lst xs) (Lst ys) \<longleftrightarrow> sc \<in> A))))"
proof -
  have worker: "categorical_passed (build_normalization_rules flexible df rules0)
      (cat a col) (cat b col) col"
    if "col \<in> set (columns df)" "col \<notin> set skip_columns"
      "a \<in> set (rows df)" "cat a col = Str w" "w \<in> flexible" "strip w = w"
      "b \<in> set (rows df)" "cat b col = Str c" "c \<notin> flexible" "strip c = c"
    using that by (rule worker_wildcard)
  have service: "\<exists>A. service_normalize_answer flexible_answers normalization_rules (Str w') f = Inr A \<and>
           A = (if expansion fr \<noteq> {} then expansion fr
                else if options fr \<noteq> {} then options fr else {sw}) \<and>
           service_normalize_answer flexible_answers normalization_rules (Str c') f
             = Inr {sc} \<and>
           (\<forall>xs ys. set xs = A \<and> set ys = {sc} \<longrightarrow>
              (check_categorical_match (Lst xs) (Lst ys) \<longleftrightarrow> sc \<in> A))"
    if h: "normalization_rules f = Some fr" "w' \<noteq> []" "c' \<noteq> []"
      "sw = (case synonyms fr (strip w') of Some t \<Rightarrow> t | None \<Rightarrow> strip w')"
      "sc = (case synonyms fr (strip c') of Some t \<Rightarrow> t | None \<Rightarrow> strip c')"
      "sw \<in> wildcards fr \<or> sw \<in> flexible_answers"
      "sc \<notin> wildcards fr" "sc \<notin> flexible_answers"
  proof -
    have w: "service_normalize_answer flexible_answers normalization_rules (Str w') f =
        Inr (if expansion fr \<noteq> {} then expansion fr
             else if options fr \<noteq> {} then options fr else {sw})"
      using service_known_field [of normalization_rules f fr w' flexible_answers] h(1,2,4,6)
      by (simp add: Let_def)
    have c: "service_normalize_answer flexible_answers normalization_rules (Str c') f
        = Inr {sc}"
      using service_known_field [of normalization_rules f fr c' flexible_answers] h(1,3,5,7,8)
      by (simp add: Let_def)
    from w c show ?thesis by (auto simp: check_categorical_match_lists)
  qed
  from worker service show ?thesis by blast
qed

lemma strip_plain:
  "strip ''any'' = ''any''" "strip ''en'' = ''en''" "strip ''he'' = ''he''"
  "strip ''whatever'' = ''whatever''" "strip ''hebrew'' = ''hebrew''"
  by (simp_all add: strip_def is_space_def)

text \<open>A field whose rules replace \<^verbatim>\<open>whatever\<close> by the flexible answer \<^verbatim>\<open>any\<close> and
  \<^verbatim>\<open>hebrew\<close> by the option \<^verbatim>\<open>he\<close>.\<close>

definition synonym_rules :: field_rules where
  "synonym_rules = \<lparr>wildcards = {}, expansion = {''he''},
     synonyms = [''whatever'' \<mapsto> ''any'', ''hebrew'' \<mapsto> ''he''], options = {''he'', ''en''}\<rparr>"

theorem wildcard_expansion_witness:
  "categorical_passed (build_normalization_rules some_flexible language_frame no_rules)
      (Str ''any'') (Str ''en'') ''language''
   \<and> service_normalize_answer some_flexible [''language'' \<mapsto> synonym_rules] (Str ''whatever'')
       ''language'' = Inr {''he''}
   \<and> service_normalize_answer some_flexible [''language'' \<mapsto> synonym_rules] (Str ''hebrew'')
       ''language'' = Inr {''he''}
   \<and> check_categorical_match (Lst [''he'']) (Lst [''he''])"
  using wildcard_expansion [where col = "''language''" and df = language_frame
      and a = "rows language_frame ! 0" and w = "''any''" and flexible = some_flexible
      and b = "rows language_frame ! 2" and c = "''en''" and ?rules0.0 = no_rules
      and normalization_rules = "[''language'' \<mapsto> synonym_rules]" and f = "''language''"
      and fr = synonym_rules
      and w' = "''whatever''" and c' = "''hebrew''" and flexible_answers = some_flexible
      and sw = "''any''" and sc = "''he''"]
  by (simp add: language_frame_def row_of_def skip_columns_def some_flexible_def strip_plain
      synonym_rules_def)

text \<open>
  Claim C6 as stated fails in the service: the field \<^verbatim>\<open>language\<close> has the options
  \<^verbatim>\<open>he\<close> and \<^verbatim>\<open>en\<close> and the expansion \<^verbatim>\<open>he\<close>; the flexible answer \<^verbatim>\<open>any\<close>
  expands to the expansion only, and does not match the concrete option \<^verbatim>\<open>en\<close>.
\<close>

theorem wildcard_expansion_counterexample:
  "''any'' \<in> some_flexible
   \<and> (\<exists>fr. language_rules ''language'' = Some fr \<and> ''en'' \<in> options fr)
   \<and> service_normalize_answer some_flexible language_rules (Str ''any'') ''language''
       = Inr {''he''}
   \<and> service_normalize_answer some_flexible language_rules (Str ''en'') ''language''
       = Inr {''en''}
   \<and> \<not> check_categorical_match (Lst [''he'']) (Lst [''en''])"
  by (simp add: service_normalize_answer_def language_rules_def some_flexible_def strip_plain
      check_categorical_match_def Let_def)

section \<open>Group scorer\<close>

text \<open>
  The module-level caches \<^verbatim>\<open>_score_cache\<close> and \<^verbatim>\<open>_feature_cache\<close>, keyed by the sorted
  tuple of the group's row labels. They are global state, passed in and returned.
\<close>

record caches =
  score_cache :: "nat list \<rightharpoonup> real"
  feature_cache :: "nat list \<rightharpoonup> real option list list"

definition empty_caches :: caches where
  "empty_caches = \<lparr>score_cache = Map.empty, feature_cache = Map.empty\<rparr>"

definition mean :: "real list \<Rightarrow> real" where
  "mean xs = sum_list xs / real (length xs)"

text \<open>\<^verbatim>\<open>vals.var()\<close> of pandas: the sample variance, with \<^verbatim>\<open>n - 1\<close> in the denominator.\<close>

definition sample_var :: "real list \<Rightarrow> real" where
  "sample_var xs = (\<Sum>x\<leftarrow>xs. (x - mean xs)\<^sup>2) / (real (length xs) - 1)"

text \<open>\<^verbatim>\<open>pd.to_numeric(df_group[col], errors="coerce").dropna()\<close>\<close>

definition present :: "real option list \<Rightarrow> real list" where
  "present vs = List.map_filter (\<lambda>v. v) vs"

definition div_vars :: "config \<Rightarrow> string list \<Rightarrow> row list \<Rightarrow> real list" where
  "div_vars cfg cols rs =
     List.map_filter
       (\<lambda>col. if col \<in> set cols
              then (let vals = present (map (\<lambda>r. num r col) rs)
                    in if length vals > 1 then Some (sample_var vals) else None)
              else None)
       (DEFINE_NUMERIC cfg)"

definition diversity :: "config \<Rightarrow> string list \<Rightarrow> row list \<Rightarrow> real" where
  "diversity cfg cols rs =
     (if div_vars cfg cols rs \<noteq> [] then mean (div_vars cfg cols rs) else 0)"

text \<open>\<^verbatim>\<open>get_cached_features(df_group, indices)\<close>\<close>

definition get_cached_features ::
  "config \<Rightarrow> string list \<Rightarrow> row list \<Rightarrow> nat list \<Rightarrow> caches \<Rightarrow> real option list list \<times> caches" where
  "get_cached_features cfg cols rs indices c =
     (let cache_key = sort indices
      in case feature_cache c cache_key of
           Some features_array \<Rightarrow> (features_array, c)
         | None \<Rightarrow>
             (let features_array =
                    map (\<lambda>r. map (\<lambda>col. if col \<in> set cols then num r col else None)
                                (DEFINE_NUMERIC cfg)) rs
              in (features_array,
                  c\<lparr>feature_cache := (feature_cache c)(cache_key \<mapsto> features_array)\<rparr>)))"

text \<open>\<^verbatim>\<open>combinations(range(n), 2)\<close>\<close>

definition pairs :: "nat \<Rightarrow> (nat \<times> nat) list" where
  "pairs n = concat (map (\<lambda>i. map (\<lambda>j. (i, j)) [Suc i..<n]) [0..<n])"

text \<open>
  The similarity bonus from the feature array: columns with a value are min-max normalized
  (a zero range divides by 1), the Euclidean distances of the pairs of rows without NaN are
  averaged, and the bonus is \<^verbatim>\<open>1 / (1 + mean_dist)\<close>, or 0 without such a pair.
\<close>

definition similarity :: "real option list list \<Rightarrow> real" where
  "similarity X =
     (let ncols = (case X of [] \<Rightarrow> 0 | r # _ \<Rightarrow> length r);
          column = (\<lambda>c. present (map (\<lambda>r. r ! c) X));
          valid_cols = filter (\<lambda>c. column c \<noteq> []) [0..<ncols]
      in if valid_cols = [] then 0
         else
          (let col_min = (\<lambda>c. Min (set (column c)));
               col_max = (\<lambda>c. Max (set (column c)));
               denom = (\<lambda>c. if col_max c - col_min c = 0 then 1 else col_max c - col_min c);
               Xn = map (\<lambda>r. map (\<lambda>c. map_option (\<lambda>x. (x - col_min c) / denom c) (r ! c))
                                  valid_cols) X;
               valid_pairs = List.map_filter
                   (\<lambda>(i, j). if list_all (\<lambda>v. v \<noteq> None) (Xn ! i) \<and>
                                list_all (\<lambda>v. v \<noteq> None) (Xn ! j)
                             then Some (sqrt (\<Sum>(a, b)\<leftarrow>zip (Xn ! i) (Xn ! j).
                                                (the a - the b)\<^sup>2))
                             else None)
                   (pairs (length Xn))
           in if valid_pairs \<noteq> [] then 1 / (1 + mean valid_pairs) else 0))"

definition sim_bonus ::
  "config \<Rightarrow> string list \<Rightarrow> row list \<Rightarrow> nat list \<Rightarrow> caches \<Rightarrow> real \<times> caches" where
  "sim_bonus cfg cols rs indices c =
     (if length rs \<ge> 2 \<and> div_vars cfg cols rs \<noteq> []
      then (let (X, c') = get_cached_features cfg cols rs indices c in (similarity X, c'))
      else (0, c))"

text \<open>
  Soft categorical scoring: \<^verbatim>\<open>values.nunique()\<close> counts the different texts of the column
  after \<^verbatim>\<open>astype(str).str.strip()\<close>; a single value earns nothing in balance mode.
\<close>

definition categorical_diversity_score :: "config \<Rightarrow> string list \<Rightarrow> row list \<Rightarrow> real" where
  "categorical_diversity_score cfg cols rs =
     (\<Sum>(col, scoring_type)\<leftarrow>SOFT_CATEGORICAL cfg.
        if col \<in> set cols then
          (let unique_values = card (set (map (\<lambda>r. strip (py_str (cat r col))) rs))
           in if scoring_type = ''diversity'' then real unique_values / real (length rs)
              else if scoring_type = ''balance'' then
                (if unique_values > 1 then min 1 (real unique_values / 3) else 0)
              else 0)
        else 0)"

text \<open>Soft multi-choice scoring: the mean Jaccard ratio of the pairs with a non-empty union.\<close>

definition average_overlap :: "string set list \<Rightarrow> real" where
  "average_overlap sets_list =
     (let ratios = List.map_filter
            (\<lambda>(i, j). if card (sets_list ! i \<union> sets_list ! j) > 0
                      then Some (real (card (sets_list ! i \<inter> sets_list ! j)) /
                                 real (card (sets_list ! i \<union> sets_list ! j)))
                      else None)
            (pairs (length sets_list))
      in if ratios \<noteq> [] then mean ratios else 0)"

definition multi_choice_overlap_score ::
  "config \<Rightarrow> normalization_rules \<Rightarrow> string list \<Rightarrow> row list \<Rightarrow> py_error + real" where
  "multi_choice_overlap_score cfg rules cols rs =
     (case map_err
             (\<lambda>(col, scoring_type).
                if col \<in> set cols \<and> scoring_type = ''overlap_bonus'' then
                  (case map_err (\<lambda>r. to_set rules (cat r col) (Some col)) rs of
                     Inl e \<Rightarrow> Inl e
                   | Inr sets_list \<Rightarrow> Inr (average_overlap sets_list))
                else Inr 0)
             (SOFT_MULTI_CHOICE cfg) of
        Inl e \<Rightarrow> Inl e
      | Inr contributions \<Rightarrow> Inr (sum_list contributions))"

text \<open>
  \<^verbatim>\<open>group_score(df_group)\<close> without explanation, for the group \<^verbatim>\<open>df_group = df.loc[indices]\<close>
  with rows \<^verbatim>\<open>rs\<close>. A frame without rows or without columns is empty. A cached score is
  returned as it is.
\<close>

definition group_score ::
  "config \<Rightarrow> normalization_rules \<Rightarrow> string list \<Rightarrow> row list \<Rightarrow> nat list \<Rightarrow> caches
     \<Rightarrow> py_error + real \<times> caches" where
  "group_score cfg rules cols rs indices c =
     (if rs = [] \<or> cols = [] then Inr (- 1000000000, c)
      else
        (let cache_key = sort indices
         in case score_cache c cache_key of
              Some score \<Rightarrow> Inr (score, c)
            | None \<Rightarrow>
                (let (sim, c') = sim_bonus cfg cols rs indices c
                 in case multi_choice_overlap_score cfg rules cols rs of
                      Inl e \<Rightarrow> Inl e
                    | Inr multi \<Rightarrow>
                        (let score = BETA_DIVERSITY cfg * diversity cfg cols rs +
                                     GAMMA_SIMILARITY cfg * sim +
                                     CATEGORICAL_DIVERSITY cfg *
                                       categorical_diversity_score cfg cols rs +
                                     MULTI_CHOICE_OVERLAP cfg * multi
                         in Inr (score,
                                 c'\<lparr>score_cache := (score_cache c')(cache_key \<mapsto> score)\<rparr>)))))"

text \<open>
  The configuration \<^verbatim>\<open>load_config\<close> falls back to when no configuration file can be read.
  It has no \<^verbatim>\<open>age_rules\<close> key, so \<^verbatim>\<open>AGE_RULES\<close> is \<^verbatim>\<open>None\<close>.
\<close>

definition utf8 :: "nat list \<Rightarrow> string" where
  "utf8 bytes = map char_of bytes"

definition default_config :: config where
  "default_config = \<lparr>GROUP_SIZE = 6, CUT_CATEGORICAL = [], CUT_MULTI = [], CUT_NUMERIC_TOL = [],
     DEFINE_NUMERIC =
      [utf8 [215, 144, 215, 160, 215, 153, 32, 215, 144, 215, 147, 215, 157, 32, 215, 158,
        215, 149, 215, 164, 215, 160, 215, 157],
       utf8 [215, 144, 215, 160, 215, 153, 32, 215, 144, 215, 147, 215, 157, 32, 215, 153,
        215, 166, 215, 153, 215, 168, 215, 170, 215, 153],
       utf8 [215, 144, 215, 160, 215, 153, 32, 215, 160, 215, 149, 215, 152, 215, 148, 32,
        215, 156, 215, 156, 215, 151, 215, 165],
       utf8 [215, 151, 215, 169, 215, 153, 215, 145, 215, 149, 215, 170, 32, 215, 148, 215,
        149, 215, 158, 215, 149, 215, 168],
       utf8 [215, 151, 215, 169, 215, 153, 215, 145, 215, 149, 215, 170, 32, 215, 168, 215,
        149, 215, 151, 215, 160, 215, 153, 215, 149, 215, 170],
       utf8 [215, 144, 215, 160, 215, 153, 32, 215, 144, 215, 149, 215, 148, 215, 145, 32,
        215, 156, 215, 148, 215, 170, 215, 144, 215, 158, 215, 159],
       utf8 [215, 160, 215, 148, 215, 160, 215, 148, 32, 215, 153, 215, 149, 215, 170, 215,
        168, 32, 215, 145, 215, 162, 215, 153, 215, 168, 47, 215, 152, 215, 145, 215, 162],
       utf8 [215, 160, 215, 148, 215, 160, 215, 148, 32, 215, 158, 215, 169, 215, 153, 215,
        151, 32, 215, 164, 215, 149, 215, 156, 215, 153, 215, 152, 215, 153]],
     AGE_RULES = None, SOFT_CATEGORICAL = [], SOFT_MULTI_CHOICE = [],
     BETA_DIVERSITY = 1, GAMMA_SIMILARITY = 0.2, CATEGORICAL_DIVERSITY = 0.1,
     MULTI_CHOICE_OVERLAP = 0.1,
     FLEXIBLE_ANSWERS =
      {utf8 [215, 156, 215, 144, 32, 215, 158, 215, 169, 215, 160, 215, 148, 32, 215, 156,
        215, 153],
       utf8 [215, 146, 215, 157, 32, 215, 149, 215, 146, 215, 157],
       utf8 [215, 144, 215, 153, 215, 159],
       utf8 [215, 156, 215, 144, 32, 215, 151, 215, 169, 215, 149, 215, 145],
       utf8 [215, 169, 215, 153, 215, 156, 215, 149, 215, 145],
       utf8 [215, 145, 215, 153, 215, 159, 32, 215, 156, 215, 145, 215, 153, 215, 159],
       utf8 [215, 156, 215, 144, 32, 215, 158, 215, 169, 215, 160, 215, 148],
       utf8 [215, 155, 215, 156, 32, 215, 148, 215, 144, 215, 164, 215, 169, 215, 168, 215,
        149, 215, 153, 215, 149, 215, 170],
       utf8 [215, 144, 215, 153, 215, 159, 32, 215, 148, 215, 162, 215, 147, 215, 164, 215,
        148],
       utf8 [215, 156, 215, 144, 32, 215, 168, 215, 156, 215, 149, 215, 149, 215, 160, 215,
        152, 215, 153]}\<rparr>"

subsection \<open>The final score\<close>

text \<open>A configuration and a frame with one soft feature of each kind.\<close>

definition humor_config :: config where
  "humor_config = plain_config\<lparr>DEFINE_NUMERIC := [''humor''],
     SOFT_CATEGORICAL := [(''language'', ''diversity'')],
     SOFT_MULTI_CHOICE := [(''area'', ''overlap_bonus'')]\<rparr>"

definition humor_frame :: frame where
  "humor_frame = \<lparr>columns = [''humor'', ''language'', ''area''],
     rows = [row_of [(''language'', Str ''he''), (''area'', Str ''north, south'')] [(''humor'', 1)],
             row_of [(''language'', Str ''en''), (''area'', Str ''south'')] [(''humor'', 3)]]\<rparr>"

lemma pairs_2: "pairs (Suc (Suc 0)) = [(0, Suc 0)]"
  by (simp add: pairs_def)

lemma humor_terms:
  "diversity humor_config (columns humor_frame) (rows humor_frame) = 2"
  "fst (sim_bonus humor_config (columns humor_frame) (rows humor_frame) [0, 1] empty_caches) = 1 / 2"
  "categorical_diversity_score humor_config (columns humor_frame) (rows humor_frame) = 1"
  "multi_choice_overlap_score humor_config no_rules (columns humor_frame) (rows humor_frame)
     = Inr (1 / 2)"
proof -
  show "diversity humor_config (columns humor_frame) (rows humor_frame) = 2"
    by (simp add: diversity_def div_vars_def humor_config_def plain_config_def humor_frame_def
        row_of_def List.map_filter_simps present_def sample_var_def mean_def power2_eq_square)
  show "fst (sim_bonus humor_config (columns humor_frame) (rows humor_frame) [0, 1] empty_caches)
      = 1 / 2"
    by (simp add: sim_bonus_def div_vars_def humor_config_def plain_config_def humor_frame_def
        row_of_def List.map_filter_simps present_def get_cached_features_def empty_caches_def
        similarity_def Let_def pairs_2 mean_def split_def)
  show "categorical_diversity_score humor_config (columns humor_frame) (rows humor_frame) = 1"
    by (simp add: categorical_diversity_score_def humor_config_def plain_config_def
        humor_frame_def row_of_def strip_def is_space_def)
  show "multi_choice_overlap_score humor_config no_rules (columns humor_frame) (rows humor_frame)
     = Inr (1 / 2)"
    by (simp add: multi_choice_overlap_score_def humor_config_def plain_config_def
        humor_frame_def row_of_def no_rules_def union_normalized_def normalize_answer_def
        strip_def is_space_def average_overlap_def pairs_2 List.map_filter_simps mean_def
        Int_insert_left card_insert_if)
qed

text \<open>
  Claim C9, as amended. For a non-empty group whose key is not in the score cache, the score
  is \<^verbatim>\<open>beta * D + gamma * S + kappa * C + mu * M\<close> with the numeric diversity \<^verbatim>\<open>D\<close>,
  the similarity bonus \<^verbatim>\<open>S\<close>, the categorical diversity \<^verbatim>\<open>C\<close> and the multi-choice
  overlap \<^verbatim>\<open>M\<close>, and with the weights of the worker's module configuration; a cached
  score is returned unchanged. The fallback configuration has the weights 1.0, 0.2, 0.1, 0.1.
\<close>

theorem group_score_weighted_sum:
  "(rs \<noteq> [] \<and> cols \<noteq> [] \<and> score_cache c (sort indices) = None \<and>
      multi_choice_overlap_score cfg rules cols rs = Inr M \<longrightarrow>
      map_sum id fst (group_score cfg rules cols rs indices c) =
        Inr (BETA_DIVERSITY cfg * diversity cfg cols rs +
             GAMMA_SIMILARITY cfg * fst (sim_bonus cfg cols rs indices c) +
             CATEGORICAL_DIVERSITY cfg * categorical_diversity_score cfg cols rs +
             MULTI_CHOICE_OVERLAP cfg * M))
   \<and> (rs \<noteq> [] \<and> cols \<noteq> [] \<and> score_cache c (sort indices) = Some cached \<longrightarrow>
      group_score cfg rules cols rs indices c = Inr (cached, c))
   \<and> BETA_DIVERSITY default_config = 1 \<and> GAMMA_SIMILARITY default_config = 0.2
   \<and> CATEGORICAL_DIVERSITY default_config = 0.1 \<and> MULTI_CHOICE_OVERLAP default_config = 0.1"
  by (simp add: group_score_def Let_def split_def default_config_def)

theorem group_score_weighted_sum_witness:
  "map_sum id fst (group_score humor_config no_rules (columns humor_frame) (rows humor_frame)
      [0, 1] empty_caches) = Inr (225 / 100)
   \<and> group_score humor_config no_rules (columns humor_frame) (rows humor_frame) [1, 0]
        (empty_caches\<lparr>score_cache := [[0, 1] \<mapsto> 7]\<rparr>)
       = Inr (7, empty_caches\<lparr>score_cache := [[0, 1] \<mapsto> 7]\<rparr>)"
  using group_score_weighted_sum [of "rows humor_frame" "columns humor_frame" empty_caches
      "[0, 1]" humor_config no_rules "1 / 2" 0]
    group_score_weighted_sum [of "rows humor_frame" "columns humor_frame"
      "empty_caches\<lparr>score_cache := [[0, 1] \<mapsto> 7]\<rparr>" "[1, 0]" humor_config no_rules 0 7]
    humor_terms
  by (simp add: humor_frame_def empty_caches_def humor_config_def plain_config_def)

text \<open>
  Claim C9 as stated fails: the weights the scorer uses when nothing is configured are not
  1.0, 0.2, 0.4, 0.5.
\<close>

theorem default_weights_counterexample:
  "(BETA_DIVERSITY default_config, GAMMA_SIMILARITY default_config,
    CATEGORICAL_DIVERSITY default_config, MULTI_CHOICE_OVERLAP default_config)
   \<noteq> (1, 0.2, 0.4, 0.5)"
  by (simp add: default_config_def)

section \<open>Whole-group constraints\<close>

text \<open>\<^verbatim>\<open>band_id(a)\<close>: the first band containing the age, or \<^verbatim>\<open>-1\<close>.\<close>

definition band_id :: "band list \<Rightarrow> real \<Rightarrow> int" where
  "band_id bs a =
     (case find (\<lambda>i. in_band (bs ! i) a) [0..<length bs] of
        Some i \<Rightarrow> int i | None \<Rightarrow> - 1)"

text \<open>
  \<^verbatim>\<open>pass_group_constraints(df_group)\<close>, for the rows of the group. \<^verbatim>\<open>np.std\<close> is the
  population standard deviation. \<^verbatim>\<open>np.max\<close> of no ages raises.
\<close>

definition pass_group_constraints :: "config \<Rightarrow> string list \<Rightarrow> row list \<Rightarrow> py_error + bool" where
  "pass_group_constraints cfg cols rs =
     (case AGE_RULES cfg of
        None \<Rightarrow> Inr True
      | Some ar \<Rightarrow>
          if age_field ar \<notin> set cols then Inr True
          else
           (let ages = map (\<lambda>r. num r (age_field ar)) rs
            in if list_ex (\<lambda>a. a = None) ages then Inr False
               else
                (let vals = map the ages;
                     gc = age_group_constraints ar
                 in if gc_max_age_difference gc \<noteq> None \<and> vals = [] then Inl ValueError
                    else if (case gc_max_age_difference gc of
                               None \<Rightarrow> False
                             | Some max_age_diff \<Rightarrow>
                                 Max (set vals) - Min (set vals) > max_age_diff)
                      then Inr False
                    else if (case gc_max_age_std gc of
                               None \<Rightarrow> False
                             | Some max_age_std \<Rightarrow>
                                 vals \<noteq> [] \<and>
                                 sqrt ((\<Sum>a\<leftarrow>vals. (a - mean vals)\<^sup>2) / real (length vals))
                                   > max_age_std)
                      then Inr False
                    else if bands ar \<noteq> [] \<and> \<not> allow_cross_band ar \<and>
                            card (set (map (band_id (bands ar)) vals)) > 1
                      then Inr False
                    else Inr True)))"

section \<open>Greedy group builder\<close>

text \<open>Reading \<^verbatim>\<open>compat_matrix[i, j]\<close> raises outside the matrix.\<close>

definition mat_get :: "matrix \<Rightarrow> nat \<Rightarrow> nat \<Rightarrow> py_error + bool" where
  "mat_get m i j = (if i < length m \<and> j < length (m ! i) then Inr (m ! i ! j) else Inl IndexError)"

text \<open>
  \<^verbatim>\<open>sum(compat_matrix[local_idx, j] for j in local_indices if j != local_idx)\<close>: the number
  of true entries of the row over the available positions other than its own.
\<close>

definition compat_count :: "matrix \<Rightarrow> nat list \<Rightarrow> nat \<Rightarrow> py_error + nat" where
  "compat_count m local_indices local_idx =
     (case map_err (mat_get m local_idx) (filter (\<lambda>j. j \<noteq> local_idx) local_indices) of
        Inl e \<Rightarrow> Inl e
      | Inr row \<Rightarrow> Inr (length (filter (\<lambda>b. b) row)))"

text \<open>
  The dictionary \<^verbatim>\<open>compat_counts\<close>, keyed by the global index, as the list of its items in
  insertion order: assigning to a key that is present keeps its position.
\<close>

fun compat_counts ::
  "matrix \<Rightarrow> nat list \<Rightarrow> (nat \<times> nat) list \<Rightarrow> (nat \<times> nat) list \<Rightarrow> py_error + (nat \<times> nat) list" where
  "compat_counts m local_indices [] counts = Inr counts"
| "compat_counts m local_indices ((local_idx, global_idx) # rest) counts =
     (case compat_count m local_indices local_idx of
        Inl e \<Rightarrow> Inl e
      | Inr n \<Rightarrow> compat_counts m local_indices rest (AList.update global_idx n counts))"

text \<open>\<^verbatim>\<open>min(compat_counts, key=compat_counts.get)\<close>: the first key with the least count.\<close>

fun min_key_from :: "nat \<times> nat \<Rightarrow> (nat \<times> nat) list \<Rightarrow> nat" where
  "min_key_from (k, v) [] = k"
| "min_key_from (k, v) ((k', v') # rest) =
     (if v' < v then min_key_from (k', v') rest else min_key_from (k, v) rest)"

definition min_key :: "(nat \<times> nat) list \<Rightarrow> py_error + nat" where
  "min_key counts = (case counts of [] \<Rightarrow> Inl ValueError | kv # rest \<Rightarrow> Inr (min_key_from kv rest))"

definition select_seed :: "matrix \<Rightarrow> nat list \<Rightarrow> nat list \<Rightarrow> py_error + nat" where
  "select_seed m candidates local_indices =
     (case compat_counts m local_indices (zip local_indices candidates) [] of
        Inl e \<Rightarrow> Inl e
      | Inr counts \<Rightarrow> min_key counts)"

text \<open>\<^verbatim>\<open>global_to_local[global_idx]\<close>\<close>

definition lookup :: "(nat \<times> nat) list \<Rightarrow> nat \<Rightarrow> py_error + nat" where
  "lookup d k = (case map_of d k of None \<Rightarrow> Inl KeyError | Some v \<Rightarrow> Inr v)"

text \<open>\<^verbatim>\<open>all(compat_matrix[local_idx, g_local] for g_local in group_local)\<close> stops at the first false entry.\<close>

fun all_compatible :: "matrix \<Rightarrow> nat \<Rightarrow> nat list \<Rightarrow> py_error + bool" where
  "all_compatible m local_idx [] = Inr True"
| "all_compatible m local_idx (g_local # rest) =
     (case mat_get m local_idx g_local of
        Inl e \<Rightarrow> Inl e
      | Inr b \<Rightarrow> if b then all_compatible m local_idx rest else Inr False)"

text \<open>Whether a remaining candidate enters \<^verbatim>\<open>feasibles_global\<close>.\<close>

definition feasible ::
  "config \<Rightarrow> frame \<Rightarrow> matrix \<Rightarrow> (nat \<times> nat) list \<Rightarrow> nat list \<Rightarrow> nat \<Rightarrow> py_error + bool" where
  "feasible cfg df m global_to_local group_global global_idx =
     (case lookup global_to_local global_idx of
        Inl e \<Rightarrow> Inl e
      | Inr local_idx \<Rightarrow>
         (case map_err (lookup global_to_local) group_global of
            Inl e \<Rightarrow> Inl e
          | Inr group_local \<Rightarrow>
             (case all_compatible m local_idx group_local of
                Inl e \<Rightarrow> Inl e
              | Inr ok \<Rightarrow>
                  if \<not> ok then Inr False
                  else (case loc df (group_global @ [global_idx]) of
                          Inl e \<Rightarrow> Inl e
                        | Inr df_try \<Rightarrow> pass_group_constraints cfg (columns df) df_try))))"

fun filter_err :: "('a \<Rightarrow> py_error + bool) \<Rightarrow> 'a list \<Rightarrow> py_error + 'a list" where
  "filter_err p [] = Inr []"
| "filter_err p (x # xs) =
     (case p x of
        Inl e \<Rightarrow> Inl e
      | Inr b \<Rightarrow> (case filter_err p xs of
                    Inl e \<Rightarrow> Inl e
                  | Inr ys \<Rightarrow> Inr (if b then x # ys else ys)))"

text \<open>
  The loop over \<^verbatim>\<open>feasibles_global\<close> that scores \<^verbatim>\<open>group_global + [global_idx]\<close> and keeps
  the first candidate whose score exceeds the best so far, starting from \<^verbatim>\<open>None\<close> and
  \<^verbatim>\<open>-1e9\<close>.
\<close>

fun best_candidate ::
  "config \<Rightarrow> normalization_rules \<Rightarrow> frame \<Rightarrow> nat list \<Rightarrow> nat list \<Rightarrow> nat option \<Rightarrow> real \<Rightarrow> caches
     \<Rightarrow> py_error + nat option \<times> real \<times> caches" where
  "best_candidate cfg rules df group_global [] best_cand best_score c =
     Inr (best_cand, best_score, c)"
| "best_candidate cfg rules df group_global (global_idx # rest) best_cand best_score c =
     (case loc df (group_global @ [global_idx]) of
        Inl e \<Rightarrow> Inl e
      | Inr rs \<Rightarrow>
         (case group_score cfg rules (columns df) rs (group_global @ [global_idx]) c of
            Inl e \<Rightarrow> Inl e
          | Inr (score, c') \<Rightarrow>
              if score > best_score
              then best_candidate cfg rules df group_global rest (Some global_idx) score c'
              else best_candidate cfg rules df group_global rest best_cand best_score c'))"

lemma filter_err_subset: "filter_err p xs = Inr ys \<Longrightarrow> set ys \<subseteq> set xs"
  by (induction xs arbitrary: ys) (auto split: sum.splits if_splits)

lemma best_candidate_member:
  "best_candidate cfg rules df g xs b s c = Inr (Some x, s', c') \<Longrightarrow> b = Some x \<or> x \<in> set xs"
  by (induction xs arbitrary: b s c) (auto split: sum.splits if_splits prod.splits)

text \<open>
  The \<^verbatim>\<open>while\<close> loop of the builder. \<^verbatim>\<open>remaining\<close> lists the set
  \<^verbatim>\<open>remaining_global\<close> in its iteration order, which removing a member does not change.
  When no score exceeds \<^verbatim>\<open>-1e9\<close> the code appends \<^verbatim>\<open>None\<close> and
  \<^verbatim>\<open>remaining_global.remove(None)\<close> raises \<^verbatim>\<open>KeyError\<close>.
\<close>

function extend ::
  "config \<Rightarrow> normalization_rules \<Rightarrow> frame \<Rightarrow> matrix \<Rightarrow> (nat \<times> nat) list \<Rightarrow> nat list \<Rightarrow> nat list
     \<Rightarrow> caches \<Rightarrow> py_error + nat list \<times> caches" where
  "extend cfg rules df m global_to_local group_global remaining c =
     (if length group_global < GROUP_SIZE cfg \<and> remaining \<noteq> [] then
        (case filter_err (feasible cfg df m global_to_local group_global) remaining of
           Inl e \<Rightarrow> Inl e
         | Inr feasibles_global \<Rightarrow>
             if feasibles_global = [] then Inr (group_global, c)
             else
              (case best_candidate cfg rules df group_global feasibles_global None
                      (- 1000000000) c of
                 Inl e \<Rightarrow> Inl e
               | Inr (best_cand, best_score, c') \<Rightarrow>
                  (case best_cand of
                     None \<Rightarrow> Inl KeyError
                   | Some x \<Rightarrow>
                       extend cfg rules df m global_to_local (group_global @ [x])
                         (remove1 x remaining) c')))
      else Inr (group_global, c))"
  by pat_completeness auto
termination
proof (relation "measure (\<lambda>(cfg, rules, df, m, g2l, group, remaining, c). length remaining)")
  show "wf (measure (\<lambda>(cfg, rules, df, m, g2l, group, remaining, c). length remaining))"
    by simp
next
  fix cfg rules df m global_to_local group_global remaining c feasibles_global res best_cand
    rest best_score c' x
  assume "filter_err (feasible cfg df m global_to_local group_global) remaining
            = Inr feasibles_global"
    and "best_candidate cfg rules df group_global feasibles_global None (- 1000000000) c
            = Inr res"
    and "(best_cand, rest) = res" and "(best_score, c') = rest" and "best_cand = Some x"
  then have "x \<in> set remaining"
    using filter_err_subset best_candidate_member by fastforce
  then have "length (remove1 x remaining) < length remaining"
    by (simp add: length_remove1) (cases remaining, auto)
  then show "((cfg, rules, df, m, global_to_local, group_global @ [x], remove1 x remaining, c'),
              (cfg, rules, df, m, global_to_local, group_global, remaining, c))
             \<in> measure (\<lambda>(cfg, rules, df, m, g2l, group, remaining, c). length remaining)"
    by simp
qed

text \<open>
  \<^verbatim>\<open>build_one_group_optimized(df, candidates, compat_matrix, local_indices)\<close>. The argument
  \<^verbatim>\<open>ord\<close> gives the order in which Python iterates the set
  \<^verbatim>\<open>set(candidates) - {seed_global}\<close>. The minimum size 4 is a constant of the function.
\<close>

definition build_one_group_optimized ::
  "config \<Rightarrow> normalization_rules \<Rightarrow> (nat list \<Rightarrow> nat \<Rightarrow> nat list) \<Rightarrow> frame \<Rightarrow> nat list \<Rightarrow> matrix
     \<Rightarrow> nat list \<Rightarrow> caches \<Rightarrow> py_error + nat list \<times> caches" where
  "build_one_group_optimized cfg rules ord df candidates m local_indices c =
     (if candidates = [] \<or> local_indices = [] then Inr ([], c)
      else if length local_indices > length candidates then Inl IndexError
      else
       (let local_to_global = fold (\<lambda>(local_idx, global_idx). AList.update local_idx global_idx)
                                (zip local_indices candidates) [];
            global_to_local = fold (\<lambda>(local_idx, global_idx). AList.update global_idx local_idx)
                                local_to_global []
        in case select_seed m candidates local_indices of
             Inl e \<Rightarrow> Inl e
           | Inr seed_global \<Rightarrow>
              (case extend cfg rules df m global_to_local [seed_global]
                      (ord candidates seed_global) c of
                 Inl e \<Rightarrow> Inl e
               | Inr (group_global, c') \<Rightarrow>
                   Inr (if length group_global \<ge> 4 then group_global else [], c'))))"

section \<open>Run drivers\<close>

subsection \<open>The worker's \<^verbatim>\<open>make_groups\<close>\<close>

text \<open>\<^verbatim>\<open>subspace_key(row)\<close> and \<^verbatim>\<open>partition_into_subspaces(df)\<close>: the buckets in the order
  in which their keys first occur.\<close>

definition subspace_key :: "config \<Rightarrow> string list \<Rightarrow> row \<Rightarrow> (string \<times> string) list" where
  "subspace_key cfg cols r =
     map (\<lambda>col. (col, strip (py_str (get_cat cols r col)))) (CUT_CATEGORICAL cfg)"

definition bucket_append :: "'k \<Rightarrow> nat \<Rightarrow> ('k \<times> nat list) list \<Rightarrow> ('k \<times> nat list) list" where
  "bucket_append key idx buckets =
     (case map_of buckets key of
        None \<Rightarrow> buckets @ [(key, [idx])]
      | Some idxs \<Rightarrow> AList.update key (idxs @ [idx]) buckets)"

definition partition_into_subspaces ::
  "config \<Rightarrow> frame \<Rightarrow> ((string \<times> string) list \<times> nat list) list" where
  "partition_into_subspaces cfg df =
     fold (\<lambda>(idx, r). bucket_append (subspace_key cfg (columns df) r) idx)
       (enumerate 0 (rows df)) []"

text \<open>\<^verbatim>\<open>pool.index(idx)\<close>: the first position of a member.\<close>

fun index_of :: "nat list \<Rightarrow> nat \<Rightarrow> nat" where
  "index_of [] x = 0"
| "index_of (y # ys) x = (if x = y then 0 else Suc (index_of ys x))"

lemma select_seed_member:
  assumes "select_seed m candidates local_indices = Inr seed"
  shows "seed \<in> set candidates"
proof -
  have keys: "compat_counts m ls zs acc = Inr counts \<Longrightarrow>
      fst ` set counts \<subseteq> fst ` set acc \<union> snd ` set zs" for ls zs acc counts
  proof (induction zs arbitrary: acc)
    case Nil
    then show ?case by simp
  next
    case (Cons z zs)
    obtain l g where z: "z = (l, g)" by (cases z)
    from Cons.prems z obtain n
      where "compat_counts m ls zs (AList.update g n acc) = Inr counts"
      by (auto split: sum.splits)
    from Cons.IH [OF this] have "fst ` set counts \<subseteq> insert g (fst ` set acc) \<union> snd ` set zs"
      by (simp add: dom_update)
    with z show ?case by auto
  qed
  have mk: "min_key_from kv rest \<in> fst ` set (kv # rest)" for kv rest
  proof (induction rest arbitrary: kv)
    case Nil
    then show ?case by (cases kv) simp
  next
    case (Cons a rest)
    obtain k v k' v' where "kv = (k, v)" "a = (k', v')" by (cases kv, cases a) auto
    with Cons [of "(k', v')"] Cons [of "(k, v)"] show ?case by auto
  qed
  from assms obtain counts
    where c: "compat_counts m local_indices (zip local_indices candidates) [] = Inr counts"
      and s: "min_key counts = Inr seed"
    by (auto simp: select_seed_def split: sum.splits)
  from s obtain kv rest where "counts = kv # rest" "seed = min_key_from kv rest"
    by (auto simp: min_key_def split: list.splits)
  with mk [of kv rest] have "seed \<in> fst ` set counts" by simp
  with keys [OF c] have "seed \<in> snd ` set (zip local_indices candidates)" by auto
  then show ?thesis by (auto dest: set_zip_rightD)
qed

declare extend.simps [simp del]

lemma extend_invariant:
  "extend cfg rules df m g2l grp remaining c = Inr (g, c') \<Longrightarrow>
   \<exists>more. g = grp @ more \<and> set more \<subseteq> set remaining \<and>
          (distinct remaining \<longrightarrow> distinct more) \<and>
          length g \<le> max (length grp) (GROUP_SIZE cfg)"
proof (induction cfg rules df m g2l grp remaining c rule: extend.induct)
  case (1 cfg rules df m g2l grp remaining c)
  show ?case
  proof (cases "length grp < GROUP_SIZE cfg \<and> remaining \<noteq> []")
    case False
    with "1.prems" have "g = grp" by (auto simp: extend.simps [of cfg rules df m g2l grp])
    then show ?thesis by simp
  next
    case True
    show ?thesis
    proof (cases "filter_err (feasible cfg df m g2l grp) remaining")
      case (Inl e)
      with True "1.prems" show ?thesis
        by (simp add: extend.simps [of cfg rules df m g2l grp])
    next
      case (Inr feasibles)
      show ?thesis
      proof (cases "feasibles = []")
        case True
        with \<open>length grp < GROUP_SIZE cfg \<and> remaining \<noteq> []\<close> Inr "1.prems" have "g = grp"
          by (simp add: extend.simps [of cfg rules df m g2l grp])
        then show ?thesis by simp
      next
        case False
        with True Inr "1.prems" obtain x best_score c1
          where b: "best_candidate cfg rules df grp feasibles None (- 1000000000) c
                      = Inr (Some x, best_score, c1)"
            and e: "extend cfg rules df m g2l (grp @ [x]) (remove1 x remaining) c1 = Inr (g, c')"
          by (auto simp: extend.simps [of cfg rules df m g2l grp]
              split: sum.splits option.splits)
        from b have "x \<in> set feasibles" using best_candidate_member by fastforce
        with Inr have x: "x \<in> set remaining" using filter_err_subset by fastforce
        from "1.IH" [OF True Inr False b refl refl refl e] obtain more
          where more: "g = (grp @ [x]) @ more" "set more \<subseteq> set (remove1 x remaining)"
            "distinct (remove1 x remaining) \<longrightarrow> distinct more"
            "length g \<le> max (length (grp @ [x])) (GROUP_SIZE cfg)"
          by blast
        have "set (x # more) \<subseteq> set remaining"
          using x more(2) set_remove1_subset [of x remaining] by auto
        moreover have "distinct remaining \<longrightarrow> distinct (x # more)"
          using more(2,3) by (auto simp: distinct_remove1)
        moreover have "length g \<le> max (length grp) (GROUP_SIZE cfg)"
          using more(4) True by simp
        ultimately show ?thesis using more(1) by (intro exI [of _ "x # more"]) simp
      qed
    qed
  qed
qed

text \<open>What is required of the iteration order of a Python set.\<close>

definition set_order :: "(nat list \<Rightarrow> nat \<Rightarrow> nat list) \<Rightarrow> bool" where
  "set_order ord \<longleftrightarrow> (\<forall>cs s. distinct (ord cs s) \<and> set (ord cs s) = set cs - {s})"

lemma build_one_group_invariant:
  assumes "build_one_group_optimized cfg rules ord df candidates m local_indices c = Inr (g, c')"
  shows "g = [] \<or> (4 \<le> length g \<and> length g \<le> GROUP_SIZE cfg \<and> hd g \<in> set candidates \<and>
           (set_order ord \<longrightarrow> distinct g \<and> set g \<subseteq> set candidates))"
proof (cases "g = []")
  case True
  then show ?thesis by simp
next
  case False
  with assms obtain seed grp
    where s: "select_seed m candidates local_indices = Inr seed"
      and e: "extend cfg rules df m
                (fold (\<lambda>(local_idx, global_idx). AList.update global_idx local_idx)
                   (fold (\<lambda>(local_idx, global_idx). AList.update local_idx global_idx)
                      (zip local_indices candidates) []) [])
                [seed] (ord candidates seed) c = Inr (grp, c')"
      and g: "g = (if length grp \<ge> 4 then grp else [])"
    by (auto simp: build_one_group_optimized_def Let_def split: if_splits sum.splits)
  from g False have gg: "g = grp" "4 \<le> length grp" by (auto split: if_splits)
  from extend_invariant [OF e] obtain more
    where more: "grp = [seed] @ more" "set more \<subseteq> set (ord candidates seed)"
      "distinct (ord candidates seed) \<longrightarrow> distinct more"
      "length grp \<le> max (length [seed]) (GROUP_SIZE cfg)"
    by blast
  have seed: "seed \<in> set candidates" using s by (rule select_seed_member)
  have "length g \<le> GROUP_SIZE cfg" using more(4) gg by simp
  moreover have "hd g \<in> set candidates" using gg more(1) seed by simp
  moreover have "distinct g \<and> set g \<subseteq> set candidates" if "set_order ord"
    using that more(1,2,3) gg seed by (auto simp: set_order_def)
  ultimately show ?thesis using gg by simp
qed

text \<open>
  The \<^verbatim>\<open>while True\<close> loop of \<^verbatim>\<open>make_groups\<close> for one subspace. The matrix was built for
  the pool at entry and is not rebuilt when the pool shrinks, while the local indices are
  positions in the current pool.
\<close>

function subspace_loop ::
  "config \<Rightarrow> normalization_rules \<Rightarrow> (nat list \<Rightarrow> nat \<Rightarrow> nat list) \<Rightarrow> frame \<Rightarrow> matrix \<Rightarrow> nat list
     \<Rightarrow> nat set \<Rightarrow> nat list list \<Rightarrow> caches \<Rightarrow> py_error + nat list list \<times> nat set \<times> caches" where
  "subspace_loop cfg rules ord df compat_matrix pool used all_groups c =
     (let available_candidates = filter (\<lambda>i. i \<notin> used) pool
      in if length available_candidates < 4 then Inr (all_groups, used, c)
         else
          (let local_indices = map (index_of pool) available_candidates
           in case build_one_group_optimized cfg rules ord df available_candidates
                     compat_matrix local_indices c of
                Inl e \<Rightarrow> Inl e
              | Inr (grp, c') \<Rightarrow>
                  if grp = [] then Inr (all_groups, used, c')
                  else subspace_loop cfg rules ord df compat_matrix
                         (filter (\<lambda>i. i \<notin> used \<union> set grp) pool) (used \<union> set grp)
                         (all_groups @ [grp]) c'))"
  by pat_completeness auto
termination
proof (relation "measure (\<lambda>(cfg, rules, ord, df, m, pool, used, groups, c). length pool)")
  show "wf (measure (\<lambda>(cfg, rules, ord, df, m, pool, used, groups, c). length pool))"
    by simp
next
  fix cfg rules ord df compat_matrix pool used all_groups c available local_indices res
    grp c'
  assume a: "available = filter (\<lambda>i. i \<notin> used) pool"
    and "local_indices = map (index_of pool) available"
    and b: "build_one_group_optimized cfg rules ord df available compat_matrix local_indices c
              = Inr res"
    and r: "(grp, c') = res" and ne: "grp \<noteq> []"
  from b r have "build_one_group_optimized cfg rules ord df available compat_matrix
      local_indices c = Inr (grp, c')" by simp
  from build_one_group_invariant [OF this] ne have "hd grp \<in> set available" by simp
  with a have "hd grp \<in> set pool" by simp
  moreover have "hd grp \<in> set grp" using ne by simp
  ultimately have "length (filter (\<lambda>i. i \<notin> used \<union> set grp) pool) < length pool"
    by (intro length_filter_less [of "hd grp"]) auto
  then show "((cfg, rules, ord, df, compat_matrix, filter (\<lambda>i. i \<notin> used \<union> set grp) pool,
               used \<union> set grp, all_groups @ [grp], c'),
              (cfg, rules, ord, df, compat_matrix, pool, used, all_groups, c))
             \<in> measure (\<lambda>(cfg, rules, ord, df, m, pool, used, groups, c). length pool)"
    by simp
qed

fun subspaces_loop ::
  "config \<Rightarrow> normalization_rules \<Rightarrow> (nat list \<Rightarrow> nat \<Rightarrow> nat list) \<Rightarrow> frame \<Rightarrow> ('k \<times> nat list) list
     \<Rightarrow> nat set \<Rightarrow> nat list list \<Rightarrow> caches \<Rightarrow> py_error + nat list list \<times> nat set \<times> caches" where
  "subspaces_loop cfg rules ord df [] used all_groups c = Inr (all_groups, used, c)"
| "subspaces_loop cfg rules ord df ((key, idxs) # rest) used all_groups c =
     (let pool = filter (\<lambda>i. i \<notin> used) idxs
      in if length pool < 4 then subspaces_loop cfg rules ord df rest used all_groups c
         else
          (case build_compatibility_matrix_vectorized cfg rules df (Some pool) of
             Inl e \<Rightarrow> Inl e
           | Inr compat_matrix \<Rightarrow>
              (case subspace_loop cfg rules ord df compat_matrix pool used all_groups c of
                 Inl e \<Rightarrow> Inl e
               | Inr (all_groups', used', c') \<Rightarrow>
                   subspaces_loop cfg rules ord df rest used' all_groups' c')))"

text \<open>
  \<^verbatim>\<open>make_groups(df)\<close> after its validation of the configuration and the frame, which can
  only raise: the caches are cleared, the frame is partitioned, and every subspace is
  processed in turn.
\<close>

definition make_groups ::
  "config \<Rightarrow> normalization_rules \<Rightarrow> (nat list \<Rightarrow> nat \<Rightarrow> nat list) \<Rightarrow> frame \<Rightarrow> py_error + nat list list" where
  "make_groups cfg rules ord df =
     (case subspaces_loop cfg rules ord df (partition_into_subspaces cfg df) {} [] empty_caches of
        Inl e \<Rightarrow> Inl e
      | Inr (all_groups, used, c) \<Rightarrow> Inr all_groups)"

subsection \<open>The service's run\<close>

text \<open>
  \<^verbatim>\<open>GroupingEngine._partition_by_subspaces\<close>: the key of a row joins \<^verbatim>\<open>field=value\<close>
  segments; a list value is joined sorted, and \<^verbatim>\<open>row.get(field)\<close> of an absent column is
  \<^verbatim>\<open>None\<close>.
\<close>

definition value_text :: "string list \<Rightarrow> row \<Rightarrow> string \<Rightarrow> string" where
  "value_text cols r field =
     (if field \<in> set cols then
        (case cat r field of
           Lst xs \<Rightarrow> join '','' (sort xs)
         | Str s \<Rightarrow> s
         | NaN \<Rightarrow> ''nan'')
      else ''None'')"

definition engine_subspace_key :: "policy \<Rightarrow> string list \<Rightarrow> row \<Rightarrow> string" where
  "engine_subspace_key pol cols r =
     join ''||'' (map (\<lambda>subspace_fields.
        join ''|'' (map (\<lambda>field. field @ ''='' @ value_text cols r field) subspace_fields))
        (subspaces pol))"

definition partition_by_subspaces :: "policy \<Rightarrow> frame \<Rightarrow> (string \<times> nat list) list" where
  "partition_by_subspaces pol df =
     fold (\<lambda>(idx, r). bucket_append (engine_subspace_key pol (columns df) r) idx)
       (enumerate 0 (rows df)) []"

text \<open>
  The \<^verbatim>\<open>while\<close> loop of \<^verbatim>\<open>_process_subspace\<close>, on the state \<^verbatim>\<open>self.groups\<close> and
  \<^verbatim>\<open>self.ungrouped\<close>. The matrix is rebuilt for the participants that remain. The
  explanation of a group does not change the groups and is left out.
\<close>

function engine_loop ::
  "policy \<Rightarrow> config \<Rightarrow> normalization_rules \<Rightarrow> (nat list \<Rightarrow> nat \<Rightarrow> nat list) \<Rightarrow> frame \<Rightarrow> nat list
     \<Rightarrow> matrix \<Rightarrow> nat list list \<Rightarrow> nat set \<Rightarrow> caches
     \<Rightarrow> py_error + nat list list \<times> nat set \<times> caches" where
  "engine_loop pol cfg rules ord df available compat_matrix groups ungrouped c =
     (if length available \<ge> min_group_size pol then
        (case build_one_group_optimized cfg rules ord df available compat_matrix
                [0..<length available] c of
           Inl e \<Rightarrow> Inl e
         | Inr (grp, c') \<Rightarrow>
             if grp = [] then Inr (groups, ungrouped, c')
             else
              (let ungrouped' = ungrouped - set grp;
                   available' = filter (\<lambda>i. i \<in> ungrouped') available
               in if available' \<noteq> [] then
                    (case iloc df available' of
                       Inl e \<Rightarrow> Inl e
                     | Inr df_subset \<Rightarrow>
                         (case engine_build_compatibility_matrix pol (columns df) df_subset of
                            Inl e \<Rightarrow> Inl e
                          | Inr compat_matrix' \<Rightarrow>
                              engine_loop pol cfg rules ord df available' compat_matrix'
                                (groups @ [grp]) ungrouped' c'))
                  else engine_loop pol cfg rules ord df available' compat_matrix
                         (groups @ [grp]) ungrouped' c'))
      else Inr (groups, ungrouped, c))"
  by pat_completeness auto
termination
proof (relation "measure (\<lambda>(pol, cfg, rules, ord, df, available, m, groups, ungrouped, c).
                             length available)", goal_cases)
  case 1
  then show ?case by simp
next
  case (2 pol cfg rules ord df available compat_matrix groups ungrouped c res grp c' ungrouped'
      available' df_subset compat_matrix')
  then have "build_one_group_optimized cfg rules ord df available compat_matrix
      [0..<length available] c = Inr (grp, c')" by simp
  from build_one_group_invariant [OF this] 2 have "hd grp \<in> set available" by simp
  moreover have "hd grp \<in> set grp" using 2 by simp
  ultimately have "length (filter (\<lambda>i. i \<in> ungrouped - set grp) available) < length available"
    by (intro length_filter_less [of "hd grp"]) auto
  with 2 show ?case by simp
next
  case (3 pol cfg rules ord df available compat_matrix groups ungrouped c res grp c' ungrouped'
      available')
  then have "build_one_group_optimized cfg rules ord df available compat_matrix
      [0..<length available] c = Inr (grp, c')" by simp
  from build_one_group_invariant [OF this] 3 have "hd grp \<in> set available" by simp
  moreover have "hd grp \<in> set grp" using 3 by simp
  ultimately have "length (filter (\<lambda>i. i \<in> ungrouped - set grp) available) < length available"
    by (intro length_filter_less [of "hd grp"]) auto
  with 3 show ?case by simp
qed

text \<open>\<^verbatim>\<open>GroupingEngine._process_subspace(subspace_key, indices)\<close>\<close>

definition process_subspace ::
  "policy \<Rightarrow> config \<Rightarrow> normalization_rules \<Rightarrow> (nat list \<Rightarrow> nat \<Rightarrow> nat list) \<Rightarrow> frame \<Rightarrow> nat list
     \<Rightarrow> nat list list \<Rightarrow> nat set \<Rightarrow> caches \<Rightarrow> py_error + nat list list \<times> nat set \<times> caches" where
  "process_subspace pol cfg rules ord df indices groups ungrouped c =
     (let available = filter (\<lambda>i. i \<in> ungrouped) indices
      in if length available < min_group_size pol then Inr (groups, ungrouped, c)
         else
          (case iloc df available of
             Inl e \<Rightarrow> Inl e
           | Inr df_subset \<Rightarrow>
               (case engine_build_compatibility_matrix pol (columns df) df_subset of
                  Inl e \<Rightarrow> Inl e
                | Inr compat_matrix \<Rightarrow>
                    engine_loop pol cfg rules ord df available compat_matrix
                      groups ungrouped c)))"

fun process_subspaces ::
  "policy \<Rightarrow> config \<Rightarrow> normalization_rules \<Rightarrow> (nat list \<Rightarrow> nat \<Rightarrow> nat list) \<Rightarrow> frame
     \<Rightarrow> (string \<times> nat list) list \<Rightarrow> nat list list \<Rightarrow> nat set \<Rightarrow> caches
     \<Rightarrow> py_error + nat list list \<times> nat set \<times> caches" where
  "process_subspaces pol cfg rules ord df [] groups ungrouped c = Inr (groups, ungrouped, c)"
| "process_subspaces pol cfg rules ord df ((key, indices) # rest) groups ungrouped c =
     (case process_subspace pol cfg rules ord df indices groups ungrouped c of
        Inl e \<Rightarrow> Inl e
      | Inr (groups', ungrouped', c') \<Rightarrow>
          process_subspaces pol cfg rules ord df rest groups' ungrouped' c')"

text \<open>
  \<^verbatim>\<open>GroupingEngine.run()\<close> on a fresh engine (\<^verbatim>\<open>groups = []\<close>, all rows ungrouped). The
  worker's module configuration and caches are those of the process; the caches are not
  cleared by the service.
\<close>

definition engine_run ::
  "policy \<Rightarrow> config \<Rightarrow> normalization_rules \<Rightarrow> (nat list \<Rightarrow> nat \<Rightarrow> nat list) \<Rightarrow> frame \<Rightarrow> caches
     \<Rightarrow> py_error + nat list list \<times> caches" where
  "engine_run pol cfg rules ord features_df c =
     (let subspace_partitions =
            (if subspaces pol \<noteq> [] then partition_by_subspaces pol features_df
             else [(''global'', [0..<length (rows features_df)])])
      in case process_subspaces pol cfg rules ord features_df subspace_partitions []
                (set [0..<length (rows features_df)]) c of
           Inl e \<Rightarrow> Inl e
         | Inr (groups, ungrouped, c') \<Rightarrow> Inr (groups, c'))"

subsection \<open>Invariants of the runs\<close>

definition sizes_ok :: "config \<Rightarrow> nat list list \<Rightarrow> bool" where
  "sizes_ok cfg groups \<longleftrightarrow> list_all (\<lambda>g. 4 \<le> length g \<and> length g \<le> GROUP_SIZE cfg) groups"

declare subspace_loop.simps [simp del] engine_loop.simps [simp del]

lemma subspace_loop_invariant:
  "subspace_loop cfg rules ord df m pool used groups c = Inr (groups', used', c') \<Longrightarrow>
   (sizes_ok cfg groups \<longrightarrow> sizes_ok cfg groups') \<and>
   (set_order ord \<and> distinct (concat groups) \<and> set (concat groups) \<subseteq> used \<longrightarrow>
      distinct (concat groups') \<and> set (concat groups') \<subseteq> used')"
proof (induction cfg rules ord df m pool used groups c rule: subspace_loop.induct)
  case (1 cfg rules ord df m pool used groups c)
  let ?available = "filter (\<lambda>i. i \<notin> used) pool"
  show ?case
  proof (cases "length ?available < 4")
    case True
    with "1.prems" show ?thesis
      by (simp add: subspace_loop.simps [of cfg rules ord df m pool] Let_def)
  next
    case False
    from False "1.prems" obtain grp c1
      where b: "build_one_group_optimized cfg rules ord df ?available m
                  (map (index_of pool) ?available) c = Inr (grp, c1)"
      by (auto simp: subspace_loop.simps [of cfg rules ord df m pool] Let_def split: sum.splits)
    show ?thesis
    proof (cases "grp = []")
      case True
      with False b "1.prems" show ?thesis
        by (simp add: subspace_loop.simps [of cfg rules ord df m pool] Let_def)
    next
      case ne: False
      from False b ne "1.prems"
      have rec: "subspace_loop cfg rules ord df m (filter (\<lambda>i. i \<notin> used \<union> set grp) pool)
                   (used \<union> set grp) (groups @ [grp]) c1 = Inr (groups', used', c')"
        by (simp add: subspace_loop.simps [of cfg rules ord df m pool] Let_def)
      from False have nl: "\<not> length ?available < 4" .
      note IH = "1.IH" [OF refl nl refl b refl ne rec]
      from build_one_group_invariant [OF b] ne
      have g: "4 \<le> length grp" "length grp \<le> GROUP_SIZE cfg"
        and go: "set_order ord \<longrightarrow> distinct grp \<and> set grp \<subseteq> set ?available"
        by simp_all
      have s: "sizes_ok cfg groups \<longrightarrow> sizes_ok cfg (groups @ [grp])"
        using g by (simp add: sizes_ok_def)
      have d: "distinct (concat (groups @ [grp])) \<and> set (concat (groups @ [grp])) \<subseteq> used \<union> set grp"
        if "set_order ord" "distinct (concat groups)" "set (concat groups) \<subseteq> used"
        using that go by auto
      from IH s d show ?thesis by blast
    qed
  qed
qed

lemma subspaces_loop_invariant:
  "subspaces_loop cfg rules ord df parts used groups c = Inr (groups', used', c') \<Longrightarrow>
   (sizes_ok cfg groups \<longrightarrow> sizes_ok cfg groups') \<and>
   (set_order ord \<and> distinct (concat groups) \<and> set (concat groups) \<subseteq> used \<longrightarrow>
      distinct (concat groups') \<and> set (concat groups') \<subseteq> used')"
proof (induction parts arbitrary: used groups c)
  case Nil
  then show ?case by simp
next
  case (Cons p rest)
  obtain key idxs where p: "p = (key, idxs)" by (cases p)
  let ?pool = "filter (\<lambda>i. i \<notin> used) idxs"
  show ?case
  proof (cases "length ?pool < 4")
    case True
    with Cons.prems p have "subspaces_loop cfg rules ord df rest used groups c
        = Inr (groups', used', c')" by (simp add: Let_def)
    from Cons.IH [OF this] show ?thesis .
  next
    case False
    with Cons.prems p obtain m g1 u1 c1
      where "subspace_loop cfg rules ord df m ?pool used groups c = Inr (g1, u1, c1)"
        and "subspaces_loop cfg rules ord df rest u1 g1 c1 = Inr (groups', used', c')"
      by (auto simp: Let_def split: sum.splits)
    from subspace_loop_invariant [OF this(1)] Cons.IH [OF this(2)] show ?thesis by blast
  qed
qed

lemma engine_loop_invariant:
  "engine_loop pol cfg rules ord df available m groups ungrouped c
     = Inr (groups', ungrouped', c') \<Longrightarrow>
   (sizes_ok cfg groups \<longrightarrow> sizes_ok cfg groups') \<and>
   (set_order ord \<and> set available \<subseteq> ungrouped \<and> distinct (concat groups) \<and>
      set (concat groups) \<inter> ungrouped = {} \<longrightarrow>
      distinct (concat groups') \<and> set (concat groups') \<inter> ungrouped' = {})"
proof (induction pol cfg rules ord df available m groups ungrouped c rule: engine_loop.induct)
  case (1 pol cfg rules ord df available m groups ungrouped c)
  show ?case
  proof (cases "length available \<ge> min_group_size pol")
    case False
    with "1.prems" show ?thesis
      by (simp add: engine_loop.simps [of pol cfg rules ord df available])
  next
    case True
    from True "1.prems" obtain grp c1
      where b: "build_one_group_optimized cfg rules ord df available m
                  [0..<length available] c = Inr (grp, c1)"
      by (auto simp: engine_loop.simps [of pol cfg rules ord df available] split: sum.splits)
    show ?thesis
    proof (cases "grp = []")
      case True
      with \<open>length available \<ge> min_group_size pol\<close> b "1.prems" show ?thesis
        by (simp add: engine_loop.simps [of pol cfg rules ord df available])
    next
      case ne: False
      let ?ungrouped = "ungrouped - set grp"
      let ?available = "filter (\<lambda>i. i \<in> ?ungrouped) available"
      from build_one_group_invariant [OF b] ne
      have g: "4 \<le> length grp" "length grp \<le> GROUP_SIZE cfg"
        and go: "set_order ord \<longrightarrow> distinct grp \<and> set grp \<subseteq> set available"
        by simp_all
      have s: "sizes_ok cfg groups \<longrightarrow> sizes_ok cfg (groups @ [grp])"
        using g by (simp add: sizes_ok_def)
      have d: "set_order ord \<and> set ?available \<subseteq> ?ungrouped \<and>
               distinct (concat (groups @ [grp])) \<and>
               set (concat (groups @ [grp])) \<inter> ?ungrouped = {}"
        if "set_order ord" "set available \<subseteq> ungrouped" "distinct (concat groups)"
          "set (concat groups) \<inter> ungrouped = {}"
        using that go by auto
      show ?thesis
      proof (cases "?available = []")
        case False
        with True b ne "1.prems" obtain df_subset m1
          where i: "iloc df ?available = Inr df_subset"
            and em: "engine_build_compatibility_matrix pol (columns df) df_subset = Inr m1"
            and rec: "engine_loop pol cfg rules ord df ?available m1
                        (groups @ [grp]) ?ungrouped c1 = Inr (groups', ungrouped', c')"
          by (auto simp: engine_loop.simps [of pol cfg rules ord df available] Let_def
              split: sum.splits)
        from "1.IH"(1) [OF True b refl ne refl refl False i em rec] s d
        show ?thesis by blast
      next
        case e: True
        with True b ne "1.prems"
        have rec: "engine_loop pol cfg rules ord df ?available m
                        (groups @ [grp]) ?ungrouped c1 = Inr (groups', ungrouped', c')"
          by (simp add: engine_loop.simps [of pol cfg rules ord df available] Let_def)
        have nn: "\<not> ?available \<noteq> []" using e by simp
        from "1.IH"(2) [OF True b refl ne refl refl nn rec] s d
        show ?thesis by blast
      qed
    qed
  qed
qed

lemma process_subspaces_invariant:
  "process_subspaces pol cfg rules ord df parts groups ungrouped c
     = Inr (groups', ungrouped', c') \<Longrightarrow>
   (sizes_ok cfg groups \<longrightarrow> sizes_ok cfg groups') \<and>
   (set_order ord \<and> distinct (concat groups) \<and> set (concat groups) \<inter> ungrouped = {} \<longrightarrow>
      distinct (concat groups') \<and> set (concat groups') \<inter> ungrouped' = {})"
proof (induction parts arbitrary: groups ungrouped c)
  case Nil
  then show ?case by simp
next
  case (Cons p rest)
  obtain key indices where p: "p = (key, indices)" by (cases p)
  from Cons.prems p obtain g1 u1 c1
    where ps: "process_subspace pol cfg rules ord df indices groups ungrouped c = Inr (g1, u1, c1)"
      and rest: "process_subspaces pol cfg rules ord df rest g1 u1 c1 = Inr (groups', ungrouped', c')"
    by (auto split: sum.splits)
  let ?available = "filter (\<lambda>i. i \<in> ungrouped) indices"
  have one: "(sizes_ok cfg groups \<longrightarrow> sizes_ok cfg g1) \<and>
     (set_order ord \<and> distinct (concat groups) \<and> set (concat groups) \<inter> ungrouped = {} \<longrightarrow>
        distinct (concat g1) \<and> set (concat g1) \<inter> u1 = {})"
  proof (cases "length ?available < min_group_size pol")
    case True
    with ps show ?thesis by (simp add: process_subspace_def Let_def)
  next
    case False
    with ps obtain m1
      where "engine_loop pol cfg rules ord df ?available m1
               groups ungrouped c = Inr (g1, u1, c1)"
      by (auto simp: process_subspace_def Let_def split: sum.splits)
    from engine_loop_invariant [OF this] show ?thesis by auto
  qed
  from one Cons.IH [OF rest] show ?case by blast
qed

lemma make_groups_invariant:
  assumes "make_groups cfg rules ord df = Inr groups"
  shows "sizes_ok cfg groups" and "set_order ord \<Longrightarrow> distinct (concat groups)"
proof -
  from assms obtain used c'
    where "subspaces_loop cfg rules ord df (partition_into_subspaces cfg df) {} [] empty_caches
             = Inr (groups, used, c')"
    by (auto simp: make_groups_def split: sum.splits)
  from subspaces_loop_invariant [OF this]
  show "sizes_ok cfg groups" and "set_order ord \<Longrightarrow> distinct (concat groups)"
    by (simp_all add: sizes_ok_def)
qed

lemma engine_run_invariant:
  assumes "engine_run pol cfg rules ord df c = Inr (groups, c')"
  shows "sizes_ok cfg groups" and "set_order ord \<Longrightarrow> distinct (concat groups)"
proof -
  from assms obtain parts ungrouped
    where "process_subspaces pol cfg rules ord df parts [] (set [0..<length (rows df)]) c
             = Inr (groups, ungrouped, c')"
    by (auto simp: engine_run_def Let_def split: sum.splits)
  from process_subspaces_invariant [OF this]
  show "sizes_ok cfg groups" and "set_order ord \<Longrightarrow> distinct (concat groups)"
    by (simp_all add: sizes_ok_def)
qed

lemma distinct_concat_disjoint:
  assumes "distinct (concat xs)" and "i < j" and "j < length xs"
  shows "set (xs ! i) \<inter> set (xs ! j) = {}"
proof -
  have "xs = take j xs @ xs ! j # drop (Suc j) xs" using assms(3) by (rule id_take_nth_drop)
  then have "distinct (concat (take j xs) @ xs ! j @ concat (drop (Suc j) xs))"
    using assms(1) by (metis concat.simps(2) concat_append)
  then have "set (concat (take j xs)) \<inter> set (xs ! j) = {}" by auto
  moreover have "xs ! i \<in> set (take j xs)"
    using assms(2,3) by (metis in_set_conv_nth length_take min.absorb2 nth_take order_less_imp_le)
  ultimately show ?thesis by auto
qed

section \<open>Properties of the builder and of the runs\<close>

subsection \<open>Concrete runs\<close>

text \<open>
  The iteration order of a CPython set of small non-negative integers that occupy different
  slots of a hash table with \<^verbatim>\<open>n\<close> slots: by slot, the hash of an integer being itself.
\<close>

definition slot_order :: "nat \<Rightarrow> nat list \<Rightarrow> nat \<Rightarrow> nat list" where
  "slot_order n cs s = sort_key (\<lambda>i. i mod n) (remdups (removeAll s cs))"

definition budget_row :: "real \<Rightarrow> row" where
  "budget_row b = row_of [] [(''budget'', b)]"

definition ten_people :: frame where
  "ten_people = \<lparr>columns = [''budget''], rows = replicate 10 (budget_row 3)\<rparr>"

definition all_true :: "nat \<Rightarrow> matrix" where
  "all_true n = mk_matrix n (\<lambda>i j. True)"

lemma set_order_slot_order: "set_order (slot_order n)"
  by (simp add: set_order_def slot_order_def) 

lemma plain_config_simps [simp]:
  "GROUP_SIZE plain_config = 6" "DEFINE_NUMERIC plain_config = []"
  "SOFT_CATEGORICAL plain_config = []" "SOFT_MULTI_CHOICE plain_config = []"
  "AGE_RULES plain_config = None" "CUT_CATEGORICAL plain_config = []"
  "CUT_MULTI plain_config = []" "CUT_NUMERIC_TOL plain_config = []"
  by (simp_all add: plain_config_def)

lemma group_score_plain:
  assumes "DEFINE_NUMERIC cfg = []" "SOFT_CATEGORICAL cfg = []" "SOFT_MULTI_CHOICE cfg = []"
    and "rs \<noteq> []" "cols \<noteq> []"
  shows "group_score cfg rules cols rs idxs c =
     Inr (case score_cache c (sort idxs) of
            Some s \<Rightarrow> (s, c)
          | None \<Rightarrow> (0, c\<lparr>score_cache := (score_cache c)(sort idxs \<mapsto> 0)\<rparr>))"
  using assms
  by (simp add: group_score_def sim_bonus_def div_vars_def diversity_def
      categorical_diversity_score_def multi_choice_overlap_score_def Let_def
      List.map_filter_simps split: option.splits)

lemma pass_group_constraints_plain:
  "AGE_RULES cfg = None \<Longrightarrow> pass_group_constraints cfg cols rs = Inr True"
  by (simp add: pass_group_constraints_def)

lemma ten_people_simps [simp]:
  "columns ten_people = [''budget'']" "length (rows ten_people) = 10"
  by (simp_all add: ten_people_def)

lemmas eval_builder =
  build_one_group_optimized_def select_seed_def compat_count_def mat_get_def min_key_def
  extend.simps feasible_def lookup_def loc_def pass_group_constraints_plain group_score_plain
  Let_def mk_matrix_def all_true_def slot_order_def empty_caches_def

lemma build_2389:
  "map_sum id fst (build_one_group_optimized plain_config no_rules (slot_order 8) ten_people
      [2, 3, 8, 9] (all_true 4) [0, 1, 2, 3] empty_caches) = Inr [2, 8, 9, 3]"
  by (simp add: eval_builder)

subsection \<open>Seed selection\<close>

text \<open>
  The compatibility degree in the specification's words: the number of true entries of the
  row over the available positions, the own position excluded.
\<close>

definition degree :: "matrix \<Rightarrow> nat list \<Rightarrow> nat \<Rightarrow> nat" where
  "degree m local_indices l = length (filter (\<lambda>j. j \<noteq> l \<and> m ! l ! j) local_indices)"

lemma compat_count_degree:
  assumes "compat_count m ls l = Inr n"
  shows "n = degree m ls l"
proof -
  let ?xs = "filter (\<lambda>j. j \<noteq> l) ls"
  from assms obtain row where r: "map_err (mat_get m l) ?xs = Inr row"
    and n: "n = length (filter (\<lambda>b. b) row)"
    by (auto simp: compat_count_def split: sum.splits)
  from map_err_Inr [OF r] have len: "length row = length ?xs"
    and nth: "\<forall>k<length ?xs. mat_get m l (?xs ! k) = Inr (row ! k)" by simp_all
  have "row = map (\<lambda>j. m ! l ! j) ?xs"
  proof (rule nth_equalityI)
    show "length row = length (map (\<lambda>j. m ! l ! j) ?xs)" using len by simp
  next
    fix k assume "k < length row"
    with len nth have "mat_get m l (?xs ! k) = Inr (row ! k)" "k < length ?xs" by simp_all
    then show "row ! k = map (\<lambda>j. m ! l ! j) ?xs ! k"
      by (auto simp: mat_get_def split: if_splits)
  qed
  then have "n = length (filter (\<lambda>j. m ! l ! j) ?xs)"
    using n by (simp add: filter_map o_def)
  then show ?thesis by (simp add: degree_def conj_commute)
qed

lemma update_fresh: "k \<notin> fst ` set acc \<Longrightarrow> AList.update k v acc = acc @ [(k, v)]"
  by (induction acc) auto

lemma compat_counts_fresh:
  "distinct (map fst acc @ map snd zs) \<Longrightarrow> compat_counts m ls zs acc = Inr counts \<Longrightarrow>
   counts = acc @ map (\<lambda>(l, g). (g, degree m ls l)) zs"
proof (induction zs arbitrary: acc)
  case Nil
  then show ?case by simp
next
  case (Cons z zs)
  obtain l g where z: "z = (l, g)" by (cases z)
  from Cons.prems(2) z obtain n where n: "compat_count m ls l = Inr n"
    and rest: "compat_counts m ls zs (AList.update g n acc) = Inr counts"
    by (auto split: sum.splits)
  from Cons.prems(1) z have fresh: "g \<notin> fst ` set acc" by auto
  then have u: "AList.update g n acc = acc @ [(g, n)]" by (rule update_fresh)
  have "distinct (map fst (acc @ [(g, n)]) @ map snd zs)" using Cons.prems(1) z by auto
  from Cons.IH [OF this] rest u have "counts = (acc @ [(g, n)]) @ map (\<lambda>(l, g). (g, degree m ls l)) zs"
    by simp
  with compat_count_degree [OF n] z show ?case by simp
qed

lemma min_key_from_first_min:
  "\<exists>i<length (kv # rest). min_key_from kv rest = fst ((kv # rest) ! i) \<and>
      (\<forall>j<length (kv # rest). snd ((kv # rest) ! i) \<le> snd ((kv # rest) ! j)) \<and>
      (\<forall>j<i. snd ((kv # rest) ! i) < snd ((kv # rest) ! j))"
proof (induction rest arbitrary: kv)
  case Nil
  then show ?case by (cases kv) simp
next
  case (Cons a rest)
  obtain k v k' v' where kv: "kv = (k, v)" and a: "a = (k', v')" by (cases kv, cases a) auto
  show ?case
  proof (cases "v' < v")
    case True
    from Cons [of "(k', v')"] obtain i where i: "i < length ((k', v') # rest)"
      "min_key_from (k', v') rest = fst (((k', v') # rest) ! i)"
      "\<forall>j<length ((k', v') # rest). snd (((k', v') # rest) ! i) \<le> snd (((k', v') # rest) ! j)"
      "\<forall>j<i. snd (((k', v') # rest) ! i) < snd (((k', v') # rest) ! j)"
      by blast
    from i(3) have le: "snd (((k', v') # rest) ! i) \<le> v'" by force
    show ?thesis
    proof (intro exI [of _ "Suc i"] conjI allI impI)
      show "Suc i < length (kv # a # rest)" using i(1) by simp
      show "min_key_from kv (a # rest) = fst ((kv # a # rest) ! Suc i)"
        using True i(2) kv a by simp
    next
      fix j assume "j < length (kv # a # rest)"
      then show "snd ((kv # a # rest) ! Suc i) \<le> snd ((kv # a # rest) ! j)"
        using i(3) le True kv a by (cases j) auto
    next
      fix j assume "j < Suc i"
      then show "snd ((kv # a # rest) ! Suc i) < snd ((kv # a # rest) ! j)"
        using i(4) le True kv a by (cases j) auto
    qed
  next
    case False
    from Cons [of "(k, v)"] obtain i where i: "i < length ((k, v) # rest)"
      "min_key_from (k, v) rest = fst (((k, v) # rest) ! i)"
      "\<forall>j<length ((k, v) # rest). snd (((k, v) # rest) ! i) \<le> snd (((k, v) # rest) ! j)"
      "\<forall>j<i. snd (((k, v) # rest) ! i) < snd (((k, v) # rest) ! j)"
      by blast
    show ?thesis
    proof (cases i)
      case 0
      show ?thesis
      proof (intro exI [of _ 0] conjI allI impI)
        show "0 < length (kv # a # rest)" by simp
        show "min_key_from kv (a # rest) = fst ((kv # a # rest) ! 0)"
          using False i(2) 0 kv a by simp
      next
        fix j assume "j < length (kv # a # rest)"
        then show "snd ((kv # a # rest) ! 0) \<le> snd ((kv # a # rest) ! j)"
          using i(3) 0 False kv a
          by (cases j) (auto simp: nth_Cons split: nat.splits)
      next
        fix j :: nat assume "j < 0"
        then show "snd ((kv # a # rest) ! 0) < snd ((kv # a # rest) ! j)" by simp
      qed
    next
      case (Suc i')
      from i(4) Suc have lt: "snd (rest ! i') < v" by force
      show ?thesis
      proof (intro exI [of _ "Suc (Suc i')"] conjI allI impI)
        show "Suc (Suc i') < length (kv # a # rest)" using i(1) Suc by simp
        show "min_key_from kv (a # rest) = fst ((kv # a # rest) ! Suc (Suc i'))"
          using False i(2) Suc kv a by simp
      next
        fix j assume j: "j < length (kv # a # rest)"
        show "snd ((kv # a # rest) ! Suc (Suc i')) \<le> snd ((kv # a # rest) ! j)"
        proof (cases j)
          case 0
          then show ?thesis using lt kv by simp
        next
          case (Suc j')
          show ?thesis
          proof (cases j')
            case 0
            then show ?thesis using lt False Suc a by simp
          next
            case (Suc j'')
            with \<open>j = Suc j'\<close> j i(3) \<open>i = Suc i'\<close> show ?thesis by force
          qed
        qed
      next
        fix j assume j: "j < Suc (Suc i')"
        show "snd ((kv # a # rest) ! Suc (Suc i')) < snd ((kv # a # rest) ! j)"
        proof (cases j)
          case 0
          then show ?thesis using lt kv by simp
        next
          case (Suc j')
          show ?thesis
          proof (cases j')
            case 0
            then show ?thesis using lt False Suc a by simp
          next
            case (Suc j'')
            with \<open>j = Suc j'\<close> j i(4) \<open>i = Suc i'\<close> show ?thesis by force
          qed
        qed
      qed
    qed
  qed
qed

lemma select_seed_first_min:
  assumes d: "distinct candidates" and len: "length local_indices = length candidates"
    and s: "select_seed m candidates local_indices = Inr seed"
  shows "\<exists>k<length candidates. seed = candidates ! k \<and>
      (\<forall>j<length candidates. degree m local_indices (local_indices ! k)
                                \<le> degree m local_indices (local_indices ! j)) \<and>
      (\<forall>j<k. degree m local_indices (local_indices ! k)
                < degree m local_indices (local_indices ! j))"
proof -
  let ?zs = "zip local_indices candidates"
  let ?counts = "map (\<lambda>(l, g). (g, degree m local_indices l)) ?zs"
  from s obtain counts where c: "compat_counts m local_indices ?zs [] = Inr counts"
    and mk: "min_key counts = Inr seed"
    by (auto simp: select_seed_def split: sum.splits)
  have "distinct (map fst ([] :: (nat \<times> nat) list) @ map snd ?zs)" using d len by simp
  from compat_counts_fresh [OF this c] have counts: "counts = ?counts" by simp
  have n: "length counts = length candidates" using counts len by simp
  have nth: "counts ! j = (candidates ! j, degree m local_indices (local_indices ! j))"
    if "j < length candidates" for j
    using that counts len by simp
  from mk obtain kv rest where kr: "counts = kv # rest" "seed = min_key_from kv rest"
    by (auto simp: min_key_def split: list.splits)
  from min_key_from_first_min [of kv rest] kr obtain i where i: "i < length counts"
    "seed = fst (counts ! i)"
    "\<forall>j<length counts. snd (counts ! i) \<le> snd (counts ! j)"
    "\<forall>j<i. snd (counts ! i) < snd (counts ! j)"
    by auto
  show ?thesis
  proof (intro exI [of _ i] conjI allI impI)
    show "i < length candidates" using i(1) n by simp
    show "seed = candidates ! i" using i(1,2) n nth by simp
  next
    fix j assume "j < length candidates"
    with i(1,3) n nth show "degree m local_indices (local_indices ! i)
        \<le> degree m local_indices (local_indices ! j)" by force
  next
    fix j assume "j < i"
    with i(1,4) n nth show "degree m local_indices (local_indices ! i)
        < degree m local_indices (local_indices ! j)" by force
  qed
qed

lemma build_one_group_seed:
  assumes "build_one_group_optimized cfg rules ord df candidates m local_indices c = Inr (g, c')"
    and "g \<noteq> []"
  shows "select_seed m candidates local_indices = Inr (hd g)"
proof -
  from assms obtain seed grp
    where s: "select_seed m candidates local_indices = Inr seed"
      and e: "extend cfg rules df m
                (fold (\<lambda>(local_idx, global_idx). AList.update global_idx local_idx)
                   (fold (\<lambda>(local_idx, global_idx). AList.update local_idx global_idx)
                      (zip local_indices candidates) []) [])
                [seed] (ord candidates seed) c = Inr (grp, c')"
      and g: "g = (if length grp \<ge> 4 then grp else [])"
    by (auto simp: build_one_group_optimized_def Let_def split: if_splits sum.splits)
  from extend_invariant [OF e] obtain more where "grp = [seed] @ more" by blast
  with g assms(2) have "hd g = seed" by (auto split: if_splits)
  with s show ?thesis by simp
qed

text \<open>
  The builder on its own, for the matrix and the local positions it is given: the seed is a
  candidate whose row of that matrix has the fewest true entries over the given positions
  other than its own, and it is the first such candidate in the order of the candidates, hence
  the lowest index among them when the candidates are in increasing order. The first member of
  every group that the builder returns is that seed. Whether the rows of the matrix are those
  of the candidates is up to the caller.
\<close>

lemma select_seed_smallest_degree:
  "distinct candidates \<and> length local_indices = length candidates \<and>
   select_seed m candidates local_indices = Inr seed \<longrightarrow>
     (\<exists>k<length candidates. seed = candidates ! k \<and>
        (\<forall>j<length candidates. degree m local_indices (local_indices ! k)
                                  \<le> degree m local_indices (local_indices ! j)) \<and>
        (\<forall>j<k. degree m local_indices (local_indices ! k)
                  < degree m local_indices (local_indices ! j)) \<and>
        (sorted candidates \<longrightarrow>
           (\<forall>j<length candidates.
               degree m local_indices (local_indices ! j)
                 = degree m local_indices (local_indices ! k) \<longrightarrow> seed \<le> candidates ! j)))
   \<and> (map_sum id fst (build_one_group_optimized cfg rules ord df candidates m local_indices c)
          = Inr g \<and>
        g \<noteq> [] \<longrightarrow> select_seed m candidates local_indices = Inr (hd g))"
proof -
  have first: "\<exists>k<length candidates. seed = candidates ! k \<and>
        (\<forall>j<length candidates. degree m local_indices (local_indices ! k)
                                  \<le> degree m local_indices (local_indices ! j)) \<and>
        (\<forall>j<k. degree m local_indices (local_indices ! k)
                  < degree m local_indices (local_indices ! j)) \<and>
        (sorted candidates \<longrightarrow>
           (\<forall>j<length candidates.
               degree m local_indices (local_indices ! j)
                 = degree m local_indices (local_indices ! k) \<longrightarrow> seed \<le> candidates ! j))"
    if h: "distinct candidates" "length local_indices = length candidates"
      "select_seed m candidates local_indices = Inr seed"
  proof -
    from select_seed_first_min [OF h] obtain k where k: "k < length candidates"
      "seed = candidates ! k"
      "\<forall>j<length candidates. degree m local_indices (local_indices ! k)
                                  \<le> degree m local_indices (local_indices ! j)"
      "\<forall>j<k. degree m local_indices (local_indices ! k)
                  < degree m local_indices (local_indices ! j)"
      by blast
    have "seed \<le> candidates ! j"
      if "sorted candidates" "j < length candidates"
        "degree m local_indices (local_indices ! j) = degree m local_indices (local_indices ! k)"
      for j
    proof -
      from that(3) k(4) have "\<not> j < k" by force
      then have "k \<le> j" by simp
      with that(1,2) k(2) show ?thesis by (simp add: sorted_nth_mono)
    qed
    with k show ?thesis by blast
  qed
  have second: "select_seed m candidates local_indices = Inr (hd g)"
    if "map_sum id fst (build_one_group_optimized cfg rules ord df candidates m local_indices c)
          = Inr g" "g \<noteq> []"
  proof -
    from that(1) obtain c'
      where "build_one_group_optimized cfg rules ord df candidates m local_indices c = Inr (g, c')"
      by (cases "build_one_group_optimized cfg rules ord df candidates m local_indices c") auto
    then show ?thesis using that(2) by (rule build_one_group_seed)
  qed
  from first second show ?thesis by blast
qed

definition chain_matrix :: matrix where
  "chain_matrix = [[True, True, False], [True, True, True], [False, True, True]]"

lemma chain_degrees:
  "degree chain_matrix [0, 1, 2] 0 = 1" "degree chain_matrix [0, 1, 2] 1 = 2"
  "degree chain_matrix [0, 1, 2] 2 = 1"
  by (simp_all add: degree_def chain_matrix_def)

lemma chain_seed: "select_seed chain_matrix [5, 6, 7] [0, 1, 2] = Inr 5"
  by code_simp

lemma seed_2389: "select_seed (all_true 4) [2, 3, 8, 9] [0, 1, 2, 3] = Inr 2"
  by code_simp

lemma select_seed_smallest_degree_example:
  "distinct [5, 6, 7 :: nat] \<and> length [0, 1, 2 :: nat] = length [5, 6, 7 :: nat]
   \<and> sorted [5, 6, 7 :: nat]
   \<and> select_seed chain_matrix [5, 6, 7] [0, 1, 2] = Inr 5
   \<and> degree chain_matrix [0, 1, 2] 0 = 1 \<and> degree chain_matrix [0, 1, 2] 1 = 2
   \<and> degree chain_matrix [0, 1, 2] 2 = 1
   \<and> map_sum id fst (build_one_group_optimized plain_config no_rules (slot_order 8) ten_people
        [2, 3, 8, 9] (all_true 4) [0, 1, 2, 3] empty_caches) = Inr [2, 8, 9, 3]
   \<and> select_seed (all_true 4) [2, 3, 8, 9] [0, 1, 2, 3] = Inr (hd [2, 8, 9, 3])"
  using select_seed_smallest_degree [of "[5, 6, 7]" "[0, 1, 2]" chain_matrix 5 plain_config
      no_rules "slot_order 8" ten_people empty_caches "[]"]
    select_seed_smallest_degree [of "[2, 3, 8, 9]" "[0, 1, 2, 3]" "all_true 4" 2 plain_config
      no_rules "slot_order 8" ten_people empty_caches "[2, 8, 9, 3]"]
    chain_seed chain_degrees build_2389 seed_2389
  by simp

subsection \<open>Extension steps\<close>

text \<open>The scores that \<^verbatim>\<open>group_score\<close> returns along the loop over the feasible candidates.\<close>

fun candidate_scores ::
  "config \<Rightarrow> normalization_rules \<Rightarrow> frame \<Rightarrow> nat list \<Rightarrow> nat list \<Rightarrow> caches
     \<Rightarrow> py_error + real list \<times> caches" where
  "candidate_scores cfg rules df group_global [] c = Inr ([], c)"
| "candidate_scores cfg rules df group_global (global_idx # rest) c =
     (case loc df (group_global @ [global_idx]) of
        Inl e \<Rightarrow> Inl e
      | Inr rs \<Rightarrow>
         (case group_score cfg rules (columns df) rs (group_global @ [global_idx]) c of
            Inl e \<Rightarrow> Inl e
          | Inr (score, c') \<Rightarrow>
             (case candidate_scores cfg rules df group_global rest c' of
                Inl e \<Rightarrow> Inl e
              | Inr (scores, c'') \<Rightarrow> Inr (score # scores, c''))))"

lemma best_candidate_first_max:
  "best_candidate cfg rules df g xs b s c = Inr (b', s', c') \<Longrightarrow>
   \<exists>scores. candidate_scores cfg rules df g xs c = Inr (scores, c') \<and>
     length scores = length xs \<and>
     ((b' = b \<and> s' = s \<and> (\<forall>j<length xs. scores ! j \<le> s)) \<or>
      (\<exists>k<length xs. b' = Some (xs ! k) \<and> s' = scores ! k \<and> s < s' \<and>
          (\<forall>j<length xs. scores ! j \<le> s') \<and> (\<forall>j<k. scores ! j < s')))"
proof (induction xs arbitrary: b s c)
  case Nil
  then show ?case by simp
next
  case (Cons x xs)
  from Cons.prems obtain rs sc c1
    where l: "loc df (g @ [x]) = Inr rs"
      and gs: "group_score cfg rules (columns df) rs (g @ [x]) c = Inr (sc, c1)"
      and rest: "best_candidate cfg rules df g xs (if sc > s then Some x else b)
                   (if sc > s then sc else s) c1 = Inr (b', s', c')"
    by (auto split: sum.splits if_splits)
  from Cons.IH [OF rest] obtain scores
    where cs: "candidate_scores cfg rules df g xs c1 = Inr (scores, c')"
      and len: "length scores = length xs"
      and alt: "(b' = (if sc > s then Some x else b) \<and> s' = (if sc > s then sc else s) \<and>
                 (\<forall>j<length xs. scores ! j \<le> (if sc > s then sc else s))) \<or>
                (\<exists>k<length xs. b' = Some (xs ! k) \<and> s' = scores ! k \<and>
                   (if sc > s then sc else s) < s' \<and>
                   (\<forall>j<length xs. scores ! j \<le> s') \<and> (\<forall>j<k. scores ! j < s'))"
    by blast
  have cs': "candidate_scores cfg rules df g (x # xs) c = Inr (sc # scores, c')"
    using l gs cs by simp
  have len': "length (sc # scores) = length (x # xs)" using len by simp
  from alt show ?case
  proof
    assume a: "b' = (if sc > s then Some x else b) \<and> s' = (if sc > s then sc else s) \<and>
                 (\<forall>j<length xs. scores ! j \<le> (if sc > s then sc else s))"
    show ?thesis
    proof (cases "sc > s")
      case True
      with a have "0 < length (x # xs) \<and> b' = Some ((x # xs) ! 0) \<and> s' = (sc # scores) ! 0 \<and>
          s < s' \<and> (\<forall>j<length (x # xs). (sc # scores) ! j \<le> s') \<and>
          (\<forall>j<0. (sc # scores) ! j < s')"
        by (auto simp: nth_Cons split: nat.splits)
      with cs' len' show ?thesis by blast
    next
      case False
      with a have "b' = b \<and> s' = s \<and> (\<forall>j<length (x # xs). (sc # scores) ! j \<le> s)"
        by (auto simp: nth_Cons split: nat.splits)
      with cs' len' show ?thesis by blast
    qed
  next
    assume "\<exists>k<length xs. b' = Some (xs ! k) \<and> s' = scores ! k \<and>
                   (if sc > s then sc else s) < s' \<and>
                   (\<forall>j<length xs. scores ! j \<le> s') \<and> (\<forall>j<k. scores ! j < s')"
    then obtain k where k: "k < length xs" "b' = Some (xs ! k)" "s' = scores ! k"
      "(if sc > s then sc else s) < s'" "\<forall>j<length xs. scores ! j \<le> s'"
      "\<forall>j<k. scores ! j < s'"
      by blast
    from k(4) have sc: "sc < s'" and s: "s < s'" by (auto split: if_splits)
    have "Suc k < length (x # xs) \<and> b' = Some ((x # xs) ! Suc k) \<and>
          s' = (sc # scores) ! Suc k \<and> s < s' \<and>
          (\<forall>j<length (x # xs). (sc # scores) ! j \<le> s') \<and>
          (\<forall>j<Suc k. (sc # scores) ! j < s')"
      using k(1,2,3,5,6) sc s by (auto simp: nth_Cons split: nat.splits)
    with cs' len' show ?thesis by blast
  qed
qed

lemma filter_err_filter:
  "filter_err p xs = Inr ys \<Longrightarrow> ys = filter (\<lambda>x. p x = Inr True) xs"
  by (induction xs arbitrary: ys) (auto split: sum.splits if_splits)

text \<open>
  Claim C7, as amended. At an extension step whose loop over the feasible candidates returns
  a candidate, the feasible candidates are the remaining ones, in the iteration order of the
  set, that pass the feasibility test; the candidate appended has a score at least that of
  every feasible candidate and strictly above that of every feasible candidate before it in
  that order, so a tie is won by the first candidate in the iteration order of the set; and
  the loop continues from the group extended by that candidate.
\<close>

theorem extension_takes_first_best:
  "length group_global < GROUP_SIZE cfg \<and> remaining \<noteq> [] \<and>
   filter_err (feasible cfg df m g2l group_global) remaining = Inr feasibles \<and>
   map_sum id fst (best_candidate cfg rules df group_global feasibles None (- 1000000000) c)
     = Inr (Some x) \<longrightarrow>
     feasibles = filter (\<lambda>y. feasible cfg df m g2l group_global y = Inr True) remaining \<and>
     (\<exists>scores c' k.
        candidate_scores cfg rules df group_global feasibles c = Inr (scores, c') \<and>
        length scores = length feasibles \<and> k < length feasibles \<and> feasibles ! k = x \<and>
        (\<forall>j<length feasibles. scores ! j \<le> scores ! k) \<and>
        (\<forall>j<k. scores ! j < scores ! k) \<and>
        extend cfg rules df m g2l group_global remaining c =
          extend cfg rules df m g2l (group_global @ [x]) (remove1 x remaining) c')"
proof (intro impI, elim conjE)
  assume g: "length group_global < GROUP_SIZE cfg" and r: "remaining \<noteq> []"
    and f: "filter_err (feasible cfg df m g2l group_global) remaining = Inr feasibles"
    and b: "map_sum id fst (best_candidate cfg rules df group_global feasibles None
              (- 1000000000) c) = Inr (Some x)"
  from b obtain sx c'
    where b': "best_candidate cfg rules df group_global feasibles None (- 1000000000) c
                 = Inr (Some x, sx, c')"
    by (cases "best_candidate cfg rules df group_global feasibles None (- 1000000000) c") auto
  from best_candidate_first_max [OF b'] obtain scores k
    where s: "candidate_scores cfg rules df group_global feasibles c = Inr (scores, c')"
      "length scores = length feasibles" "k < length feasibles" "x = feasibles ! k"
      "sx = scores ! k" "\<forall>j<length feasibles. scores ! j \<le> sx" "\<forall>j<k. scores ! j < sx"
    by auto
  from s(3) have ne: "feasibles \<noteq> []" by auto
  have e: "extend cfg rules df m g2l group_global remaining c =
          extend cfg rules df m g2l (group_global @ [x]) (remove1 x remaining) c'"
    using g r f ne b' by (simp add: extend.simps [of cfg rules df m g2l group_global])
  from filter_err_filter [OF f] s e
  show "feasibles = filter (\<lambda>y. feasible cfg df m g2l group_global y = Inr True) remaining \<and>
     (\<exists>scores c' k.
        candidate_scores cfg rules df group_global feasibles c = Inr (scores, c') \<and>
        length scores = length feasibles \<and> k < length feasibles \<and> feasibles ! k = x \<and>
        (\<forall>j<length feasibles. scores ! j \<le> scores ! k) \<and>
        (\<forall>j<k. scores ! j < scores ! k) \<and>
        extend cfg rules df m g2l group_global remaining c =
          extend cfg rules df m g2l (group_global @ [x]) (remove1 x remaining) c')"
    by blast
qed

text \<open>Four records with a numeric humor feature: after the first record, the third and the
  fourth tie at the best score and the third is appended.\<close>

definition numeric_config :: config where
  "numeric_config = plain_config\<lparr>DEFINE_NUMERIC := [''humor'']\<rparr>"

definition humor_row :: "real \<Rightarrow> row" where
  "humor_row h = row_of [] [(''humor'', h)]"

definition four_humors :: frame where
  "four_humors = \<lparr>columns = [''humor''],
     rows = [humor_row 1, humor_row 1, humor_row 3, humor_row 3]\<rparr>"

definition identity_map :: "(nat \<times> nat) list" where
  "identity_map = [(0, 0), (1, 1), (2, 2), (3, 3)]"

lemma numeric_config_simps [simp]:
  "GROUP_SIZE numeric_config = 6" "DEFINE_NUMERIC numeric_config = [''humor'']"
  "SOFT_CATEGORICAL numeric_config = []" "SOFT_MULTI_CHOICE numeric_config = []"
  "AGE_RULES numeric_config = None" "BETA_DIVERSITY numeric_config = 1"
  "GAMMA_SIMILARITY numeric_config = 1 / 5"
  by (simp_all add: numeric_config_def plain_config_def)

lemma humor_scores:
  assumes "score_cache c (sort idxs) = None" and "feature_cache c (sort idxs) = None"
  shows "group_score numeric_config rules [''humor''] [humor_row 1, humor_row 1] idxs c =
     Inr (1 / 5,
          c\<lparr>feature_cache := (feature_cache c)(sort idxs \<mapsto> [[Some 1], [Some 1]]),
            score_cache := (score_cache c)(sort idxs \<mapsto> 1 / 5)\<rparr>)"
    and "group_score numeric_config rules [''humor''] [humor_row 1, humor_row 3] idxs c =
     Inr (21 / 10,
          c\<lparr>feature_cache := (feature_cache c)(sort idxs \<mapsto> [[Some 1], [Some 3]]),
            score_cache := (score_cache c)(sort idxs \<mapsto> 21 / 10)\<rparr>)"
  using assms
  by (simp_all add: group_score_def sim_bonus_def diversity_def div_vars_def
      get_cached_features_def similarity_def humor_row_def row_of_def present_def
      List.map_filter_simps sample_var_def mean_def power2_eq_square pairs_2 Let_def
      categorical_diversity_score_def multi_choice_overlap_score_def)

lemma four_humors_simps [simp]:
  "columns four_humors = [''humor'']" "length (rows four_humors) = 4"
  "rows four_humors ! 0 = humor_row 1" "rows four_humors ! Suc 0 = humor_row 1"
  "rows four_humors ! 2 = humor_row 3" "rows four_humors ! 3 = humor_row 3"
  by (simp_all add: four_humors_def)

lemma humor_feasibles:
  "filter_err (feasible numeric_config four_humors (all_true 4) identity_map [0]) [1, 2, 3]
     = Inr [1, 2, 3]"
  by (simp add: feasible_def lookup_def identity_map_def mat_get_def all_true_def mk_matrix_def
      loc_def pass_group_constraints_plain)

lemma humor_candidate_scores:
  "map_sum id fst (candidate_scores numeric_config no_rules four_humors [0] [1, 2, 3]
      empty_caches) = Inr [1 / 5, 21 / 10, 21 / 10]"
  by (simp add: loc_def humor_scores empty_caches_def)

lemma humor_best:
  "map_sum id fst (best_candidate numeric_config no_rules four_humors [0] [1, 2, 3] None
      (- 1000000000) empty_caches) = Inr (Some 2)"
  by (simp add: loc_def humor_scores empty_caches_def)

theorem extension_takes_first_best_witness:
  "length [0 :: nat] < GROUP_SIZE numeric_config \<and> [1, 2, 3 :: nat] \<noteq> []
   \<and> filter_err (feasible numeric_config four_humors (all_true 4) identity_map [0]) [1, 2, 3]
       = Inr [1, 2, 3]
   \<and> map_sum id fst (best_candidate numeric_config no_rules four_humors [0] [1, 2, 3] None
        (- 1000000000) empty_caches) = Inr (Some 2)
   \<and> map_sum id fst (candidate_scores numeric_config no_rules four_humors [0] [1, 2, 3]
        empty_caches) = Inr [1 / 5, 21 / 10, 21 / 10]
   \<and> [1, 2, 3] = filter (\<lambda>y. feasible numeric_config four_humors (all_true 4) identity_map
                                [0] y = Inr True) [1, 2, 3]"
proof -
  have h: "length [0 :: nat] < GROUP_SIZE numeric_config \<and> [1, 2, 3 :: nat] \<noteq> []
   \<and> filter_err (feasible numeric_config four_humors (all_true 4) identity_map [0]) [1, 2, 3]
       = Inr [1, 2, 3]
   \<and> map_sum id fst (best_candidate numeric_config no_rules four_humors [0] [1, 2, 3] None
        (- 1000000000) empty_caches) = Inr (Some 2)"
    using humor_feasibles humor_best by simp
  from extension_takes_first_best [of "[0]" numeric_config "[1, 2, 3]" four_humors
      "all_true 4" identity_map "[1, 2, 3]" no_rules empty_caches 2] h
  have "[1, 2, 3] = filter (\<lambda>y. feasible numeric_config four_humors (all_true 4) identity_map
                                [0] y = Inr True) [1, 2, 3]"
    by blast
  with h humor_candidate_scores show ?thesis by blast
qed

lemma order_2389: "slot_order 8 [2, 3, 8, 9] 2 = [8, 9, 3]"
  by code_simp

text \<open>
  Claim C7 as stated fails on the tie-break: from the candidates 2, 3, 8 and 9, all
  compatible and all of score zero, the remaining set is iterated as 8, 9, 3 after the seed
  2, and 8 is appended first although 3 is a feasible candidate of the same score and of a
  lower index.
\<close>

theorem lowest_index_tie_break_counterexample:
  "map_sum id fst (build_one_group_optimized plain_config no_rules (slot_order 8) ten_people
      [2, 3, 8, 9] (all_true 4) [0, 1, 2, 3] empty_caches) = Inr [2, 8, 9, 3]
   \<and> slot_order 8 [2, 3, 8, 9] 2 = [8, 9, 3]
   \<and> filter_err (feasible plain_config ten_people (all_true 4)
         [(2, 0), (3, 1), (8, 2), (9, 3)] [2]) [8, 9, 3] = Inr [8, 9, 3]
   \<and> map_sum id fst (candidate_scores plain_config no_rules ten_people [2] [8, 9, 3]
        empty_caches) = Inr [0, 0, 0]
   \<and> (3 :: nat) < 8"
proof -
  have "filter_err (feasible plain_config ten_people (all_true 4)
         [(2, 0), (3, 1), (8, 2), (9, 3)] [2]) [8, 9, 3] = Inr [8, 9, 3]"
    by (simp add: feasible_def lookup_def mat_get_def all_true_def mk_matrix_def loc_def
        pass_group_constraints_plain)
  moreover have "map_sum id fst (candidate_scores plain_config no_rules ten_people [2] [8, 9, 3]
        empty_caches) = Inr [0, 0, 0]"
    by (simp add: loc_def group_score_plain empty_caches_def)
  ultimately show ?thesis using build_2389 order_2389 by simp
qed

subsection \<open>Sizes and disjointness of the emitted groups\<close>

text \<open>Five records whose first and last budgets are too far apart, under a policy whose
  minimum group size is five.\<close>

definition five_budgets :: frame where
  "five_budgets = \<lparr>columns = [''budget''],
     rows = [budget_row 1, budget_row 3, budget_row 3, budget_row 3, budget_row 5]\<rparr>"

definition min5_policy :: policy where
  "min5_policy = plain_policy\<lparr>numeric_tol := [(''budget'', 2)], min_group_size := 5\<rparr>"

lemma five_budgets_simps [simp]:
  "columns five_budgets = [''budget'']" "length (rows five_budgets) = 5"
  by (simp_all add: five_budgets_def)

lemma five_matrix:
  "engine_build_compatibility_matrix min5_policy [''budget''] (rows five_budgets) =
     Inr [[True, True, True, True, False], [True, True, True, True, True],
          [True, True, True, True, True], [True, True, True, True, True],
          [False, True, True, True, True]]"
  by (simp add: engine_build_compatibility_matrix_def min5_policy_def plain_policy_def
      five_budgets_def budget_row_def row_of_def mk_matrix_def set_diag_def
      engine_pair_compatible_def engine_numeric_veto_def engine_age_veto_def enumerate_eq_zip
      Let_def upt_conv_Cons)

lemma engine_matrix_single:
  "engine_build_compatibility_matrix pol cols [r] = Inr [[True]]"
  by (simp add: engine_build_compatibility_matrix_def mk_matrix_def set_diag_def
      enumerate_eq_zip Let_def)

lemma five_build:
  "map_sum id fst (build_one_group_optimized plain_config no_rules (slot_order 32) five_budgets
      [0, 1, 2, 3, 4]
      [[True, True, True, True, False], [True, True, True, True, True],
       [True, True, True, True, True], [True, True, True, True, True],
       [False, True, True, True, True]] [0, 1, 2, 3, 4] empty_caches) = Inr [0, 1, 2, 3]"
  by (simp add: eval_builder)

lemma min5_policy_simps [simp]:
  "min_group_size min5_policy = 5" "subspaces min5_policy = []"
  by (simp_all add: min5_policy_def plain_policy_def)

lemma five_run:
  "map_sum id fst (engine_run min5_policy plain_config no_rules (slot_order 32) five_budgets
      empty_caches) = Inr [[0, 1, 2, 3]]"
  by (simp add: engine_run_def process_subspace_def iloc_def engine_loop.simps
      five_matrix [unfolded five_budgets_def, simplified] five_budgets_def eval_builder
      engine_matrix_single)

text \<open>Eight records alike, with a target group size of four.\<close>

definition four_config :: config where
  "four_config = plain_config\<lparr>GROUP_SIZE := 4\<rparr>"

definition eight_people :: frame where
  "eight_people = \<lparr>columns = [''budget''], rows = replicate 8 (budget_row 3)\<rparr>"

lemma four_config_simps [simp]:
  "GROUP_SIZE four_config = 4" "DEFINE_NUMERIC four_config = []"
  "SOFT_CATEGORICAL four_config = []" "SOFT_MULTI_CHOICE four_config = []"
  "AGE_RULES four_config = None" "CUT_CATEGORICAL four_config = []"
  "CUT_MULTI four_config = []" "CUT_NUMERIC_TOL four_config = []"
  by (simp_all add: four_config_def plain_config_def)

lemma eight_people_simps [simp]:
  "columns eight_people = [''budget'']" "length (rows eight_people) = 8"
  by (simp_all add: eight_people_def)

lemma plain_policy_simps [simp]:
  "min_group_size plain_policy = 4" "subspaces plain_policy = []"
  by (simp_all add: plain_policy_def)

lemma eight_partition:
  "partition_into_subspaces four_config eight_people = [([], [0, 1, 2, 3, 4, 5, 6, 7])]"
  by (simp add: partition_into_subspaces_def subspace_key_def eight_people_def
      enumerate_eq_zip bucket_append_def numeral_eq_Suc)

lemma eight_matrix:
  "build_compatibility_matrix_vectorized four_config no_rules eight_people
     (Some [0, Suc 0, 2, 3, 4, 5, 6, 7]) = Inr (all_true 8)"
  by (simp add: build_compatibility_matrix_vectorized_def iloc_def Let_def all_true_def
      mk_matrix_def set_diag_def enumerate_eq_zip upt_conv_Cons)

lemma eight_groups:
  "make_groups four_config no_rules (slot_order 32) eight_people
     = Inr [[0, 1, 2, 3], [4, 5, 6, 7]]"
  by (simp add: make_groups_def eight_partition eight_matrix subspace_loop.simps eval_builder
      upt_conv_Cons)

lemma eight_run:
  "map_sum id fst (engine_run plain_policy four_config no_rules (slot_order 32) eight_people
      empty_caches) = Inr [[0, 1, 2, 3], [4, 5, 6, 7]]"
  by (simp add: engine_run_def process_subspace_def iloc_def engine_loop.simps
      engine_build_compatibility_matrix_def set_diag_def enumerate_eq_zip
      engine_pair_compatible_def plain_policy_def engine_age_veto_def eval_builder
      upt_conv_Cons Let_def)

lemma map_sum_fst_Inr:
  "map_sum id fst x = Inr g \<Longrightarrow> \<exists>c'. x = Inr (g, c')"
  by (cases x) auto

text \<open>
  Claim C2, as amended. The builder returns the empty list or a group of at least four and at
  most \<^verbatim>\<open>GROUP_SIZE\<close> members, where four is a constant of the builder and
  \<^verbatim>\<open>GROUP_SIZE\<close> the worker's module configuration; so every group emitted by a run of
  \<^verbatim>\<open>make_groups\<close> or of the service's engine has between four and \<^verbatim>\<open>GROUP_SIZE\<close>
  members, whatever the policy of the engine says.
\<close>

theorem group_size_bounds:
  "(map_sum id fst (build_one_group_optimized cfg rules ord df candidates m local_indices c)
      = Inr g \<longrightarrow> g = [] \<or> (4 \<le> length g \<and> length g \<le> GROUP_SIZE cfg))
   \<and> (make_groups cfg rules ord df = Inr groups \<longrightarrow>
        (\<forall>g \<in> set groups. 4 \<le> length g \<and> length g \<le> GROUP_SIZE cfg))
   \<and> (map_sum id fst (engine_run pol cfg rules ord df c) = Inr groups' \<longrightarrow>
        (\<forall>g \<in> set groups'. 4 \<le> length g \<and> length g \<le> GROUP_SIZE cfg))"
proof (intro conjI impI)
  assume "map_sum id fst (build_one_group_optimized cfg rules ord df candidates m
            local_indices c) = Inr g"
  from map_sum_fst_Inr [OF this]
  obtain c' where "build_one_group_optimized cfg rules ord df candidates m
            local_indices c = Inr (g, c')" ..
  from build_one_group_invariant [OF this]
  show "g = [] \<or> (4 \<le> length g \<and> length g \<le> GROUP_SIZE cfg)" by blast
next
  assume "make_groups cfg rules ord df = Inr groups"
  from make_groups_invariant(1) [OF this]
  show "\<forall>g \<in> set groups. 4 \<le> length g \<and> length g \<le> GROUP_SIZE cfg"
    by (simp add: sizes_ok_def list_all_iff)
next
  assume "map_sum id fst (engine_run pol cfg rules ord df c) = Inr groups'"
  from map_sum_fst_Inr [OF this]
  obtain c' where "engine_run pol cfg rules ord df c = Inr (groups', c')" ..
  from engine_run_invariant(1) [OF this]
  show "\<forall>g \<in> set groups'. 4 \<le> length g \<and> length g \<le> GROUP_SIZE cfg"
    by (simp add: sizes_ok_def list_all_iff)
qed

theorem group_size_bounds_witness:
  "map_sum id fst (build_one_group_optimized plain_config no_rules (slot_order 8) ten_people
      [2, 3, 8, 9] (all_true 4) [0, 1, 2, 3] empty_caches) = Inr [2, 8, 9, 3]
   \<and> 4 \<le> length [2, 8, 9, 3::nat] \<and> length [2, 8, 9, 3::nat] \<le> GROUP_SIZE plain_config
   \<and> make_groups four_config no_rules (slot_order 32) eight_people
       = Inr [[0, 1, 2, 3], [4, 5, 6, 7]]
   \<and> map_sum id fst (engine_run plain_policy four_config no_rules (slot_order 32) eight_people
       empty_caches) = Inr [[0, 1, 2, 3], [4, 5, 6, 7]]
   \<and> 4 \<le> length [0, 1, 2, 3::nat] \<and> length [0, 1, 2, 3::nat] \<le> GROUP_SIZE four_config
   \<and> 4 \<le> length [4, 5, 6, 7::nat] \<and> length [4, 5, 6, 7::nat] \<le> GROUP_SIZE four_config"
  using group_size_bounds [of plain_config no_rules "slot_order 8" ten_people "[2, 3, 8, 9]"
      "all_true 4" "[0, 1, 2, 3]" empty_caches "[2, 8, 9, 3]" "[]" plain_policy "[]"]
    group_size_bounds [of four_config no_rules "slot_order 32" eight_people "[]" "[]" "[]"
      empty_caches "[]" "[[0, 1, 2, 3], [4, 5, 6, 7]]" plain_policy
      "[[0, 1, 2, 3], [4, 5, 6, 7]]"]
    build_2389 eight_groups eight_run
  by simp

text \<open>
  Claim C2 as stated fails for the engine's configured minimum: with a policy whose minimum
  group size is five, five records of which the first and the last are incompatible yield
  one emitted group of four.
\<close>

theorem configured_minimum_counterexample:
  "map_sum id fst (engine_run min5_policy plain_config no_rules (slot_order 32) five_budgets
      empty_caches) = Inr [[0, 1, 2, 3]]
   \<and> min_group_size min5_policy = 5
   \<and> length [0, 1, 2, 3::nat] < min_group_size min5_policy"
  using five_run by (simp add: min5_policy_def)

text \<open>
  Claim C3. The groups emitted by one run, of \<^verbatim>\<open>make_groups\<close> or of the service's engine,
  have no index in common and no index twice, across all subspaces: the concatenation of the
  groups is a list without repetition, so any two groups at different positions are disjoint.
  The iteration order of the builder's set of remaining candidates is any order of that set.
\<close>

theorem emitted_groups_disjoint:
  assumes "set_order ord"
  shows "(make_groups cfg rules ord df = Inr groups \<longrightarrow>
            distinct (concat groups) \<and>
            (\<forall>i j. i < j \<and> j < length groups \<longrightarrow> set (groups ! i) \<inter> set (groups ! j) = {}))
       \<and> (map_sum id fst (engine_run pol cfg rules ord df c) = Inr groups' \<longrightarrow>
            distinct (concat groups') \<and>
            (\<forall>i j. i < j \<and> j < length groups' \<longrightarrow>
               set (groups' ! i) \<inter> set (groups' ! j) = {}))"
proof (intro conjI impI)
  assume "make_groups cfg rules ord df = Inr groups"
  from make_groups_invariant(2) [OF this assms]
  show d: "distinct (concat groups)" .
  show "\<forall>i j. i < j \<and> j < length groups \<longrightarrow> set (groups ! i) \<inter> set (groups ! j) = {}"
    using distinct_concat_disjoint [OF d] by blast
next
  assume "map_sum id fst (engine_run pol cfg rules ord df c) = Inr groups'"
  from map_sum_fst_Inr [OF this]
  obtain c' where "engine_run pol cfg rules ord df c = Inr (groups', c')" ..
  from engine_run_invariant(2) [OF this assms]
  show d: "distinct (concat groups')" .
  show "\<forall>i j. i < j \<and> j < length groups' \<longrightarrow> set (groups' ! i) \<inter> set (groups' ! j) = {}"
    using distinct_concat_disjoint [OF d] by blast
qed

theorem emitted_groups_disjoint_witness:
  "set_order (slot_order 32)
   \<and> make_groups four_config no_rules (slot_order 32) eight_people
       = Inr [[0, 1, 2, 3], [4, 5, 6, 7]]
   \<and> map_sum id fst (engine_run plain_policy four_config no_rules (slot_order 32) eight_people
       empty_caches) = Inr [[0, 1, 2, 3], [4, 5, 6, 7]]
   \<and> distinct (concat [[0, 1, 2, 3], [4, 5, 6, 7::nat]])
   \<and> set ([[0, 1, 2, 3], [4, 5, 6, 7::nat]] ! 0) \<inter> set ([[0, 1, 2, 3], [4, 5, 6, 7]] ! 1) = {}"
  using emitted_groups_disjoint [OF set_order_slot_order, of four_config no_rules 32
      eight_people "[[0, 1, 2, 3], [4, 5, 6, 7]]" plain_policy empty_caches
      "[[0, 1, 2, 3], [4, 5, 6, 7]]"]
    eight_groups eight_run set_order_slot_order [of 32]
  by simp

subsection \<open>The matrix of a subspace after its first group\<close>

text \<open>
  Eight records in one subspace with a hard multi-choice column. Two records are compatible
  iff their tags overlap: the first four are compatible with each other; among the last four,
  record 4 is compatible with 5, 6 and 7, record 5 with 4 only, records 6 and 7 with 4 and with
  each other.
\<close>

definition tags_config :: config where
  "tags_config = plain_config\<lparr>CUT_MULTI := [''tags'']\<rparr>"

definition tag_row :: "string \<Rightarrow> row" where
  "tag_row t = row_of [(''tags'', Str t)] []"

definition eight_tagged :: frame where
  "eight_tagged = \<lparr>columns = [''tags''],
     rows = map tag_row [''a'', ''a,c,e'', ''a,c'', ''a'', ''b,d'', ''b,c'', ''d,e'', ''d,e'']\<rparr>"

text \<open>The matrix of all eight records, which \<^verbatim>\<open>make_groups\<close> builds once for the subspace,
  and the matrix of the four records that remain after the first group.\<close>

definition stale_matrix :: matrix where
  "stale_matrix =
    [[True, True, True, True, False, False, False, False],
     [True, True, True, True, False, True, True, True],
     [True, True, True, True, False, True, False, False],
     [True, True, True, True, False, False, False, False],
     [False, False, False, False, True, True, True, True],
     [False, True, True, False, True, True, False, False],
     [False, True, False, False, True, False, True, True],
     [False, True, False, False, True, False, True, True]]"

definition fresh_matrix :: matrix where
  "fresh_matrix =
    [[True, True, True, True],
     [True, True, False, False],
     [True, False, True, True],
     [True, False, True, True]]"

lemma tag_sets:
  "to_set no_rules (Str ''a'') (Some ''tags'') = Inr {''a''}"
  "to_set no_rules (Str ''a,c,e'') (Some ''tags'') = Inr {''a'', ''c'', ''e''}"
  "to_set no_rules (Str ''a,c'') (Some ''tags'') = Inr {''a'', ''c''}"
  "to_set no_rules (Str ''b,d'') (Some ''tags'') = Inr {''b'', ''d''}"
  "to_set no_rules (Str ''b,c'') (Some ''tags'') = Inr {''b'', ''c''}"
  "to_set no_rules (Str ''d,e'') (Some ''tags'') = Inr {''d'', ''e''}"
  by (auto simp add: no_rules_def union_normalized_def normalize_answer_def strip_def
      is_space_def Let_def)

lemma eight_tagged_simps [simp]:
  "columns eight_tagged = [''tags'']" "length (rows eight_tagged) = 8"
  "rows eight_tagged ! 0 = tag_row ''a''" "rows eight_tagged ! Suc 0 = tag_row ''a,c,e''"
  "rows eight_tagged ! 2 = tag_row ''a,c''" "rows eight_tagged ! 3 = tag_row ''a''"
  "rows eight_tagged ! 4 = tag_row ''b,d''" "rows eight_tagged ! 5 = tag_row ''b,c''"
  "rows eight_tagged ! 6 = tag_row ''d,e''" "rows eight_tagged ! 7 = tag_row ''d,e''"
  by (simp_all add: eight_tagged_def)

lemma tag_row_cat [simp]: "cat (tag_row t) ''tags'' = Str t"
  by (simp add: tag_row_def row_of_def)

lemma tags_config_simps [simp]:
  "GROUP_SIZE tags_config = 6" "DEFINE_NUMERIC tags_config = []"
  "SOFT_CATEGORICAL tags_config = []" "SOFT_MULTI_CHOICE tags_config = []"
  "AGE_RULES tags_config = None" "CUT_CATEGORICAL tags_config = []"
  "CUT_MULTI tags_config = [''tags'']" "CUT_NUMERIC_TOL tags_config = []"
  by (simp_all add: tags_config_def plain_config_def)

lemma tagged_stale_matrix:
  "build_compatibility_matrix_vectorized tags_config no_rules eight_tagged
     (Some [0, Suc 0, 2, 3, 4, 5, 6, 7]) = Inr stale_matrix"
  by (simp add: build_compatibility_matrix_vectorized_def iloc_def Let_def
      mk_matrix_def mat_and_def set_diag_def multi_layer_def tag_sets stale_matrix_def
      enumerate_eq_zip upt_conv_Cons del: to_set.simps)

lemma tagged_fresh_matrix:
  "build_compatibility_matrix_vectorized tags_config no_rules eight_tagged
     (Some [4, 5, 6, 7]) = Inr fresh_matrix"
  by (simp add: build_compatibility_matrix_vectorized_def iloc_def Let_def
      mk_matrix_def mat_and_def set_diag_def multi_layer_def tag_sets fresh_matrix_def
      enumerate_eq_zip upt_conv_Cons del: to_set.simps)

lemma tagged_partition:
  "partition_into_subspaces tags_config eight_tagged = [([], [0, 1, 2, 3, 4, 5, 6, 7])]"
  by (simp add: partition_into_subspaces_def subspace_key_def eight_tagged_def
      enumerate_eq_zip bucket_append_def numeral_eq_Suc)

lemma tagged_second_seed: "select_seed stale_matrix [4, 5, 6, 7] [0, 1, 2, 3] = Inr 4"
  by code_simp

lemma tagged_degrees:
  "degree fresh_matrix [0, 1, 2, 3] 0 = 3" "degree fresh_matrix [0, 1, 2, 3] 1 = 1"
  "degree fresh_matrix [0, 1, 2, 3] 2 = 2" "degree fresh_matrix [0, 1, 2, 3] 3 = 2"
  by (simp_all add: degree_def fresh_matrix_def)

lemma tagged_groups:
  "make_groups tags_config no_rules (slot_order 32) eight_tagged
     = Inr [[0, 1, 2, 3], [4, 5, 6, 7]]"
  by (simp add: make_groups_def tagged_partition tagged_stale_matrix subspace_loop.simps
      eval_builder stale_matrix_def upt_conv_Cons)

text \<open>
  Claim C8 at this input. \<^verbatim>\<open>make_groups\<close> emits the groups 0, 1, 2, 3 and 4, 5, 6, 7. For the
  second group the pool has shrunk to 4, 5, 6, 7, whose positions in the pool are 0 to 3, and
  the builder is given these positions with the matrix of the whole subspace: it sums the
  rows of the records 0 to 3 and takes 4 as the seed. Among the available records, however,
  record 4 has the compatibility degree 3 and record 5 the degree 1.
\<close>

theorem stale_matrix_seed:
  "make_groups tags_config no_rules (slot_order 32) eight_tagged
     = Inr [[0, 1, 2, 3], [4, 5, 6, 7]]
   \<and> build_compatibility_matrix_vectorized tags_config no_rules eight_tagged
       (Some [0, 1, 2, 3, 4, 5, 6, 7]) = Inr stale_matrix
   \<and> select_seed stale_matrix [4, 5, 6, 7] [0, 1, 2, 3] = Inr 4
   \<and> build_compatibility_matrix_vectorized tags_config no_rules eight_tagged
       (Some [4, 5, 6, 7]) = Inr fresh_matrix
   \<and> degree fresh_matrix [0, 1, 2, 3] 0 = 3
   \<and> degree fresh_matrix [0, 1, 2, 3] 1 = 1"
  using tagged_groups tagged_stale_matrix tagged_second_seed tagged_fresh_matrix tagged_degrees
  by simp

end
